theory Spec2Isabelle
  imports Main "HOL-Library.Word"
begin

section \<open>The physical texture library (texture.h)\<close>

text \<open>
  The header is modelled for the usual 64-bit C platform: \<open>int\<close> has 32 bits,
  \<open>size_t\<close> has 64 bits, \<open>float\<close> is IEEE 754 binary32 with rounding to nearest
  and expressions evaluated in their own precision, assertions are enabled, and
  an allocation of zero bytes returns a pointer that is not null. Undefined
  behaviour of C and failed assertions are results of the model: every function
  returns \<open>error + result\<close>. A file can be opened for reading when it exists,
  and what \<open>fprintf\<close> writes reaches the file.
\<close>

subsection \<open>Errors, pointers and the world the library acts on\<close>

datatype error =
    AssertAlloc       \<comment> \<open>\<open>assert(texture->data)\<close> failed: the process aborts\<close>
  | AssertOpen        \<comment> \<open>\<open>assert(fp)\<close> failed: the process aborts\<close>
  | SignedOverflow    \<comment> \<open>undefined: the \<open>int\<close> product \<open>w * h\<close> exceeds \<open>INT_MAX\<close>\<close>
  | BadAccess         \<comment> \<open>undefined: access through a null or dangling pointer, or out of bounds\<close>
  | FloatToInt        \<comment> \<open>undefined: float converted to \<open>uint32_t\<close> out of its range\<close>
  | ScanRange         \<comment> \<open>undefined: \<open>fscanf\<close> read a number its target cannot represent\<close>
  | InvalidFree       \<comment> \<open>undefined: \<open>free\<close> of a pointer that owns no live block\<close>

type_synonym uint16 = "16 word"
type_synonym uint32 = "32 word"

datatype pointer = NULL | Ptr nat

text \<open>The struct \<open>Texture\<close>: \<open>uint16_t w, h; uint32_t *data;\<close>\<close>

record Texture =
  w :: uint16
  h :: uint16
  data :: pointer

text \<open>
  The world: the heap is the list of all blocks ever allocated (a block's address
  is its index, a freed block is \<open>None\<close>), \<open>avail\<close> is the number of bytes the
  allocator can still hand out, \<open>garbage\<close> is what uninitialised memory holds,
  \<open>files\<close> maps a path to the contents of the file there, and \<open>writable\<close> says
  which paths \<open>fopen(path, "w")\<close> can open.
\<close>

record world =
  heap :: "uint32 list option list"
  avail :: nat
  garbage :: "nat \<Rightarrow> uint32"
  files :: "string \<Rightarrow> string option"
  writable :: "string \<Rightarrow> bool"

definition block :: "world \<Rightarrow> nat \<Rightarrow> uint32 list option" where
  "block s a = (if a < length (heap s) then heap s ! a else None)"

definition set_block :: "world \<Rightarrow> nat \<Rightarrow> uint32 list \<Rightarrow> world" where
  "set_block s a blk = s\<lparr>heap := (heap s)[a := Some blk]\<rparr>"

definition SIZE_MAX :: nat where
  "SIZE_MAX = 2 ^ 64 - 1"

definition sizeof_uint32 :: nat where
  "sizeof_uint32 = 4"

definition new_block :: "world \<Rightarrow> uint32 list \<Rightarrow> nat \<Rightarrow> world \<times> pointer" where
  "new_block s blk nbytes =
     (s\<lparr>heap := heap s @ [Some blk], avail := avail s - nbytes\<rparr>, Ptr (length (heap s)))"

text \<open>\<open>malloc(nbytes)\<close>: a null pointer when the bytes are not available, else a
  fresh block of \<open>uint32_t\<close> cells with unspecified contents.\<close>

definition malloc :: "world \<Rightarrow> nat \<Rightarrow> world \<times> pointer" where
  "malloc s nbytes =
     (if nbytes \<le> avail s
      then new_block s (map (garbage s) [0..<nbytes div sizeof_uint32]) nbytes
      else (s, NULL))"

text \<open>\<open>calloc(nmemb, size)\<close>: a null pointer when \<open>nmemb * size\<close> does not fit
  \<open>size_t\<close> or is not available, else a fresh block of zeros.\<close>

definition calloc :: "world \<Rightarrow> nat \<Rightarrow> nat \<Rightarrow> world \<times> pointer" where
  "calloc s nmemb sz =
     (if nmemb * sz \<le> SIZE_MAX \<and> nmemb * sz \<le> avail s
      then new_block s (replicate (nmemb * sz div sizeof_uint32) 0) (nmemb * sz)
      else (s, NULL))"

text \<open>\<open>free(p)\<close>: nothing for a null pointer; undefined unless \<open>p\<close> owns a live block.\<close>

definition free :: "world \<Rightarrow> pointer \<Rightarrow> error + world" where
  "free s p =
     (case p of
        NULL \<Rightarrow> Inr s
      | Ptr a \<Rightarrow>
          (case block s a of
             None \<Rightarrow> Inl InvalidFree
           | Some blk \<Rightarrow>
               Inr (s\<lparr>heap := (heap s)[a := None],
                      avail := avail s + sizeof_uint32 * length blk\<rparr>)))"

text \<open>\<open>p[i]\<close> read and \<open>p[i] = v\<close>.\<close>

definition load :: "world \<Rightarrow> pointer \<Rightarrow> nat \<Rightarrow> error + uint32" where
  "load s p i =
     (case p of
        NULL \<Rightarrow> Inl BadAccess
      | Ptr a \<Rightarrow>
          (case block s a of
             None \<Rightarrow> Inl BadAccess
           | Some blk \<Rightarrow> if i < length blk then Inr (blk ! i) else Inl BadAccess))"

definition store :: "world \<Rightarrow> pointer \<Rightarrow> nat \<Rightarrow> uint32 \<Rightarrow> error + world" where
  "store s p i v =
     (case p of
        NULL \<Rightarrow> Inl BadAccess
      | Ptr a \<Rightarrow>
          (case block s a of
             None \<Rightarrow> Inl BadAccess
           | Some blk \<Rightarrow>
               if i < length blk then Inr (set_block s a (blk[i := v])) else Inl BadAccess))"

subsection \<open>freeTexture\<close>

text \<open>\<open>free(texture->data); texture->data = NULL;\<close>\<close>

definition freeTexture :: "world \<Rightarrow> Texture \<Rightarrow> error + world \<times> Texture" where
  "freeTexture s texture =
     (case free s (data texture) of
        Inl e \<Rightarrow> Inl e
      | Inr s' \<Rightarrow> Inr (s', texture\<lparr>data := NULL\<rparr>))"

subsection \<open>The element count \<open>w * h\<close>\<close>

definition INT_MAX :: int where
  "INT_MAX = 2147483647"

text \<open>
  \<open>w * h\<close> on two \<open>uint16_t\<close>: both operands are promoted to \<open>int\<close> and the
  product is an \<open>int\<close>; a product above \<open>INT_MAX\<close> is undefined.
\<close>

definition mul_int :: "uint16 \<Rightarrow> uint16 \<Rightarrow> error + int" where
  "mul_int a b =
     (if uint a * uint b \<le> INT_MAX then Inr (uint a * uint b) else Inl SignedOverflow)"

text \<open>The conversion of an \<open>int\<close> to \<open>size_t\<close>.\<close>

definition to_size_t :: "int \<Rightarrow> nat" where
  "to_size_t n = nat (n mod 2 ^ 64)"

subsection \<open>initTexture\_i\<close>

text \<open>
  The loop \<open>for (size_t i = 0; i < w * h; ++i) texture->data[i] = data[i];\<close>
  with \<open>n\<close> the value of \<open>w * h\<close>, which is the same at every test. Reading the
  caller's array \<open>src\<close> past its end is undefined.
\<close>

function init_i_loop :: "world \<Rightarrow> Texture \<Rightarrow> nat \<Rightarrow> uint32 list \<Rightarrow> nat \<Rightarrow> error + world" where
  "init_i_loop s texture n src i =
     (if i < n then
        (if i < length src then
           (case store s (data texture) i (src ! i) of
              Inl e \<Rightarrow> Inl e
            | Inr s' \<Rightarrow> init_i_loop s' texture n src (Suc i))
         else Inl BadAccess)
      else Inr s)"
  by pat_completeness auto
termination
  by (relation "measure (\<lambda>(s, texture, n, src, i). n - i)") auto

definition initTexture_i ::
  "world \<Rightarrow> Texture \<Rightarrow> uint16 \<Rightarrow> uint16 \<Rightarrow> uint32 list \<Rightarrow> error + world \<times> Texture" where
  "initTexture_i s texture wd ht src =
     (case mul_int wd ht of
        Inl e \<Rightarrow> Inl e
      | Inr n \<Rightarrow>
          (case calloc s (to_size_t n) sizeof_uint32 of
             (s1, p) \<Rightarrow>
               (case p of
                  NULL \<Rightarrow> Inl AssertAlloc
                | Ptr a \<Rightarrow>
                    (case init_i_loop s1 (texture\<lparr>w := wd, h := ht, data := p\<rparr>)
                            (to_size_t n) src 0 of
                       Inl e \<Rightarrow> Inl e
                     | Inr s2 \<Rightarrow> Inr (s2, texture\<lparr>w := wd, h := ht, data := p\<rparr>)))))"

subsection \<open>Single-precision floats\<close>

text \<open>
  A \<open>float\<close>: \<open>Finite sg m e\<close> is the number \<open>(-1)^sg * m * 2^e\<close>. The values of
  binary32 have \<open>m < 2^24\<close> and \<open>-149 \<le> e\<close> and are below \<open>2^128\<close>.
\<close>

datatype float32 = Finite bool nat int | Infinity bool | NaN

fun bitlen :: "nat \<Rightarrow> nat" where
  "bitlen n = (if n = 0 then 0 else Suc (bitlen (n div 2)))"

declare bitlen.simps [simp del]

text \<open>
  Rounding of the exact number \<open>(-1)^sg * m * 2^e\<close> to binary32, to nearest with
  ties to even: the mantissa keeps 24 bits (fewer below the normal range), and a
  result of \<open>2^128\<close> or more is infinite.
\<close>

definition round_f32 :: "bool \<Rightarrow> nat \<Rightarrow> int \<Rightarrow> float32" where
  "round_f32 sg m e =
     (let shift = max (int (bitlen m) - 24) (- 149 - e);
          d = 2 ^ nat shift;
          q = m div d;
          r = m mod d;
          q' = (if d < 2 * r \<or> (2 * r = d \<and> odd q) then q + 1 else q);
          e' = (if 0 < shift then e + shift else e)
      in if 0 \<le> e' \<and> 2 ^ 128 \<le> q' * 2 ^ nat e' then Infinity sg else Finite sg q' e')"

text \<open>The conversion of a \<open>uint32_t\<close> to \<open>float\<close>.\<close>

definition float_of_uint32 :: "uint32 \<Rightarrow> float32" where
  "float_of_uint32 v = round_f32 False (unat v) 0"

text \<open>The product of two floats.\<close>

fun fmul :: "float32 \<Rightarrow> float32 \<Rightarrow> float32" where
  "fmul (Finite s1 m1 e1) (Finite s2 m2 e2) = round_f32 (s1 \<noteq> s2) (m1 * m2) (e1 + e2)"
| "fmul NaN _ = NaN"
| "fmul _ NaN = NaN"
| "fmul (Infinity s1) (Finite s2 m2 e2) = (if m2 = 0 then NaN else Infinity (s1 \<noteq> s2))"
| "fmul (Finite s1 m1 e1) (Infinity s2) = (if m1 = 0 then NaN else Infinity (s1 \<noteq> s2))"
| "fmul (Infinity s1) (Infinity s2) = Infinity (s1 \<noteq> s2)"

text \<open>
  The cast \<open>(uint32_t) f\<close>: the fraction is discarded; undefined when the integral
  part is not a value of \<open>uint32_t\<close>.
\<close>

definition uint32_of_float :: "float32 \<Rightarrow> error + uint32" where
  "uint32_of_float f =
     (case f of
        Finite sg m e \<Rightarrow>
          (let t = (if 0 \<le> e then m * 2 ^ nat e else m div 2 ^ nat (- e))
           in if sg \<and> t \<noteq> 0 then Inl FloatToInt
              else if t < 2 ^ 32 then Inr (of_nat t)
              else Inl FloatToInt)
      | Infinity sg \<Rightarrow> Inl FloatToInt
      | NaN \<Rightarrow> Inl FloatToInt)"

definition UINT32_MAX :: uint32 where
  "UINT32_MAX = 4294967295"

subsection \<open>initTexture\_f\<close>

text \<open>
  The expression \<open>(uint32_t)(UINT32_MAX * data[i])\<close>: the integer constant is
  converted to \<open>float\<close>, the product is a \<open>float\<close>, the cast truncates it.
\<close>

definition scale_sample :: "float32 \<Rightarrow> error + uint32" where
  "scale_sample x = uint32_of_float (fmul (float_of_uint32 UINT32_MAX) x)"

text \<open>
  The loop \<open>for (size_t i = 0; i < w * h; ++i)
  texture->data[i] = (uint32_t)(UINT32_MAX * data[i]);\<close>
\<close>

function init_f_loop :: "world \<Rightarrow> Texture \<Rightarrow> nat \<Rightarrow> float32 list \<Rightarrow> nat \<Rightarrow> error + world" where
  "init_f_loop s texture n src i =
     (if i < n then
        (if i < length src then
           (case scale_sample (src ! i) of
              Inl e \<Rightarrow> Inl e
            | Inr v \<Rightarrow>
                (case store s (data texture) i v of
                   Inl e \<Rightarrow> Inl e
                 | Inr s' \<Rightarrow> init_f_loop s' texture n src (Suc i)))
         else Inl BadAccess)
      else Inr s)"
  by pat_completeness auto
termination
  by (relation "measure (\<lambda>(s, texture, n, src, i). n - i)") auto

definition initTexture_f ::
  "world \<Rightarrow> Texture \<Rightarrow> uint16 \<Rightarrow> uint16 \<Rightarrow> float32 list \<Rightarrow> error + world \<times> Texture" where
  "initTexture_f s texture wd ht src =
     (case mul_int wd ht of
        Inl e \<Rightarrow> Inl e
      | Inr n \<Rightarrow>
          (case calloc s (to_size_t n) sizeof_uint32 of
             (s1, p) \<Rightarrow>
               (case p of
                  NULL \<Rightarrow> Inl AssertAlloc
                | Ptr a \<Rightarrow>
                    (case init_f_loop s1 (texture\<lparr>w := wd, h := ht, data := p\<rparr>)
                            (to_size_t n) src 0 of
                       Inl e \<Rightarrow> Inl e
                     | Inr s2 \<Rightarrow> Inr (s2, texture\<lparr>w := wd, h := ht, data := p\<rparr>)))))"

subsection \<open>writeTexture\<close>

definition digit_char :: "nat \<Rightarrow> char" where
  "digit_char d = ''0123456789'' ! d"

text \<open>What \<open>%u\<close> and \<open>%hu\<close> print: the decimal digits, most significant first.\<close>

fun decimal :: "nat \<Rightarrow> string" where
  "decimal n = (if n < 10 then [digit_char n] else decimal (n div 10) @ [digit_char (n mod 10)])"

declare decimal.simps [simp del]

text \<open>
  The loop \<open>for (size_t i = 0; i < texture->w * texture->h; ++i)
  fprintf(fp, "%u,", texture->data[i]);\<close> with \<open>out\<close> what the stream holds.
\<close>

function write_loop :: "world \<Rightarrow> Texture \<Rightarrow> nat \<Rightarrow> string \<Rightarrow> nat \<Rightarrow> error + string" where
  "write_loop s texture n out i =
     (if i < n then
        (case load s (data texture) i of
           Inl e \<Rightarrow> Inl e
         | Inr v \<Rightarrow> write_loop s texture n (out @ decimal (unat v) @ '','') (Suc i))
      else Inr out)"
  by pat_completeness auto
termination
  by (relation "measure (\<lambda>(s, texture, n, out, i). n - i)") auto

definition writeTexture :: "world \<Rightarrow> Texture \<Rightarrow> string \<Rightarrow> error + world" where
  "writeTexture s texture path =
     (if \<not> writable s path then Inl AssertOpen
      else
        (case mul_int (w texture) (h texture) of
           Inl e \<Rightarrow> Inl e
         | Inr n \<Rightarrow>
             (case write_loop s texture (to_size_t n)
                     (decimal (unat (w texture)) @ '','' @ decimal (unat (h texture)) @ '','') 0 of
                Inl e \<Rightarrow> Inl e
              | Inr out \<Rightarrow> Inr (s\<lparr>files := (files s)(path \<mapsto> out)\<rparr>))))"

subsection \<open>readTexture\<close>

definition isspace :: "char \<Rightarrow> bool" where
  "isspace c = (c \<in> set [CHR '' '', CHR 0x09, CHR 0x0A, CHR 0x0B, CHR 0x0C, CHR 0x0D])"

definition isdigit :: "char \<Rightarrow> bool" where
  "isdigit c = (c \<in> set ''0123456789'')"

definition digit_value :: "char \<Rightarrow> nat" where
  "digit_value c = of_char c - 48"

fun scan_digits :: "nat \<Rightarrow> string \<Rightarrow> nat \<times> string" where
  "scan_digits acc [] = (acc, [])"
| "scan_digits acc (c # cs) =
     (if isdigit c then scan_digits (acc * 10 + digit_value c) cs else (acc, c # cs))"

text \<open>
  The conversions \<open>%hu\<close> (\<open>bits = 16\<close>) and \<open>%u\<close> (\<open>bits = 32\<close>) of \<open>fscanf\<close>:
  white space is skipped, then an optional sign and the longest run of digits is
  read. Without a digit nothing is assigned (\<open>None\<close>); a number that the target
  cannot represent is undefined. The second component is the unread input.
\<close>

definition scan_unsigned :: "nat \<Rightarrow> string \<Rightarrow> error + nat option \<times> string" where
  "scan_unsigned bits inp =
     (let inp1 = dropWhile isspace inp;
          neg = (case inp1 of [] \<Rightarrow> False | c # cs \<Rightarrow> c = CHR ''-'');
          body = (case inp1 of [] \<Rightarrow> []
                  | c # cs \<Rightarrow> if c = CHR ''-'' \<or> c = CHR ''+'' then cs else inp1)
      in case body of
           [] \<Rightarrow> Inr (None, [])
         | d # ds \<Rightarrow>
             if isdigit d then
               (case scan_digits 0 body of
                  (v, rest) \<Rightarrow>
                    if (neg \<and> v \<noteq> 0) \<or> 2 ^ bits \<le> v then Inl ScanRange
                    else Inr (Some v, rest))
             else Inr (None, body))"

text \<open>The directive \<open>,\<close> of a format: it reads a comma, or fails and reads nothing.\<close>

definition match_comma :: "string \<Rightarrow> string option" where
  "match_comma inp =
     (case inp of [] \<Rightarrow> None | c # cs \<Rightarrow> if c = CHR '','' then Some cs else None)"

text \<open>
  \<open>fscanf(fp, "%hu,%hu,", &texture->w, &texture->h)\<close>, whose result the source
  ignores: the directives run in order until one fails, and a field that was not
  reached keeps the value it had.
\<close>

definition scan_header :: "Texture \<Rightarrow> string \<Rightarrow> error + Texture \<times> string" where
  "scan_header texture inp =
     (case scan_unsigned 16 inp of
        Inl e \<Rightarrow> Inl e
      | Inr (None, r) \<Rightarrow> Inr (texture, r)
      | Inr (Some a, r) \<Rightarrow>
          (case match_comma r of
             None \<Rightarrow> Inr (texture\<lparr>w := of_nat a\<rparr>, r)
           | Some r1 \<Rightarrow>
               (case scan_unsigned 16 r1 of
                  Inl e \<Rightarrow> Inl e
                | Inr (None, r2) \<Rightarrow> Inr (texture\<lparr>w := of_nat a\<rparr>, r2)
                | Inr (Some b, r2) \<Rightarrow>
                    Inr (texture\<lparr>w := of_nat a, h := of_nat b\<rparr>,
                         (case match_comma r2 of None \<Rightarrow> r2 | Some r3 \<Rightarrow> r3)))))"

text \<open>
  The loop \<open>for (size_t i = 0; i < size; ++i) fscanf(fp, "%u,", &texture->data[i]);\<close>
  with \<open>inp\<close> the unread input: an element whose conversion fails keeps what the
  block held.
\<close>

function read_loop :: "world \<Rightarrow> Texture \<Rightarrow> nat \<Rightarrow> string \<Rightarrow> nat \<Rightarrow> error + world" where
  "read_loop s texture n inp i =
     (if i < n then
        (case scan_unsigned 32 inp of
           Inl e \<Rightarrow> Inl e
         | Inr (None, r) \<Rightarrow> read_loop s texture n r (Suc i)
         | Inr (Some v, r) \<Rightarrow>
             (case store s (data texture) i (of_nat v) of
                Inl e \<Rightarrow> Inl e
              | Inr s' \<Rightarrow>
                  read_loop s' texture n
                    (case match_comma r of None \<Rightarrow> r | Some r1 \<Rightarrow> r1) (Suc i)))
      else Inr s)"
  by pat_completeness auto
termination
  by (relation "measure (\<lambda>(s, texture, n, inp, i). n - i)") auto

definition readTexture :: "world \<Rightarrow> Texture \<Rightarrow> string \<Rightarrow> error + world \<times> Texture" where
  "readTexture s texture path =
     (case files s path of
        None \<Rightarrow> Inl AssertOpen
      | Some content \<Rightarrow>
          (case scan_header texture content of
             Inl e \<Rightarrow> Inl e
           | Inr (t1, rest) \<Rightarrow>
               (case mul_int (w t1) (h t1) of
                  Inl e \<Rightarrow> Inl e
                | Inr n \<Rightarrow>
                    (case malloc s ((to_size_t n * sizeof_uint32) mod 2 ^ 64) of
                       (s1, p) \<Rightarrow>
                         (case p of
                            NULL \<Rightarrow> Inl AssertAlloc
                          | Ptr a \<Rightarrow>
                              (case read_loop s1 (t1\<lparr>data := p\<rparr>) (to_size_t n) rest 0 of
                                 Inl e \<Rightarrow> Inl e
                               | Inr s2 \<Rightarrow> Inr (s2, t1\<lparr>data := p\<rparr>)))))))"

subsection \<open>Vocabulary of the properties\<close>

text \<open>A texture's data pointer is sound when it is null or owns a live block.\<close>

definition sound :: "world \<Rightarrow> Texture \<Rightarrow> bool" where
  "sound s texture =
     (case data texture of NULL \<Rightarrow> True | Ptr a \<Rightarrow> block s a \<noteq> None)"

text \<open>The data buffer of a texture: the block its data pointer owns.\<close>

definition buffer :: "world \<Rightarrow> Texture \<Rightarrow> uint32 list option" where
  "buffer s texture = (case data texture of NULL \<Rightarrow> None | Ptr a \<Rightarrow> block s a)"

text \<open>A texture is populated when it owns a buffer of \<open>w * h\<close> elements.\<close>

definition populated :: "world \<Rightarrow> Texture \<Rightarrow> bool" where
  "populated s texture =
     (case buffer s texture of
        None \<Rightarrow> False
      | Some blk \<Rightarrow> length blk = unat (w texture) * unat (h texture))"

text \<open>
  The record of the file format, following its description
  \<open>width,height,value0,value1,...,valueN,\<close>: every field is a decimal number
  followed by a comma.
\<close>

definition csv_fields :: "nat list \<Rightarrow> string" where
  "csv_fields ns = concat (map (\<lambda>n. decimal n @ '','') ns)"

definition csv_record :: "uint16 \<Rightarrow> uint16 \<Rightarrow> uint32 list \<Rightarrow> string" where
  "csv_record wd ht vs = csv_fields (unat wd # unat ht # map unat vs)"

text \<open>
  The value the specification gives an element made from a sample \<open>x\<close> in
  \<open>[0, 1]\<close>: the exact product \<open>x * 4294967295\<close> with its fraction cut off.
\<close>

definition spec_scaled :: "float32 \<Rightarrow> nat option" where
  "spec_scaled x =
     (case x of
        Finite sg m e \<Rightarrow>
          if sg \<and> m \<noteq> 0 then None
          else Some (if 0 \<le> e then m * 4294967295 * 2 ^ nat e
                     else m * 4294967295 div 2 ^ nat (- e))
      | Infinity sg \<Rightarrow> None
      | NaN \<Rightarrow> None)"

declare init_i_loop.simps [simp del] init_f_loop.simps [simp del]
  write_loop.simps [simp del] read_loop.simps [simp del]

section \<open>Properties\<close>

subsection \<open>The heap\<close>

lemma block_live: "block s a = Some blk \<Longrightarrow> a < length (heap s)"
  by (simp add: block_def split: if_splits)

lemma block_set_block: "a < length (heap s) \<Longrightarrow> block (set_block s a blk) a = Some blk"
  by (simp add: block_def set_block_def)

lemma set_block_twice: "set_block (set_block s a b1) a b2 = set_block s a b2"
  by (simp add: set_block_def)

lemma set_block_same: "block s a = Some blk \<Longrightarrow> set_block s a blk = s"
  by (simp add: block_def set_block_def list_update_same_conv split: if_splits)

lemma heap_set_block_length: "length (heap (set_block s a blk)) = length (heap s)"
  by (simp add: set_block_def)

lemma store_live:
  "block s a = Some blk \<Longrightarrow> i < length blk \<Longrightarrow>
   store s (Ptr a) i v = Inr (set_block s a (blk[i := v]))"
  by (simp add: store_def)

lemma store_Inr:
  "store s p i v = Inr s' \<Longrightarrow>
   \<exists>a blk. p = Ptr a \<and> block s a = Some blk \<and> i < length blk \<and> s' = set_block s a (blk[i := v])"
  by (auto simp: store_def split: pointer.splits option.splits if_splits)

subsection \<open>initTexture\_i\<close>

lemma init_i_loop_copies:
  assumes "data t = Ptr a" "block s a = Some blk" "length blk = n" "n \<le> length src" "i \<le> n"
  shows "init_i_loop s t n src i = Inr (set_block s a (take i blk @ drop i (take n src)))"
  using assms
proof (induction "n - i" arbitrary: i s blk)
  case 0
  then have "i = n" by simp
  with 0 show ?case
    by (simp add: init_i_loop.simps set_block_same)
next
  case (Suc k)
  then have lt: "i < n" by simp
  let ?blk = "blk[i := src ! i]"
  let ?s = "set_block s a ?blk"
  have st: "store s (data t) i (src ! i) = Inr ?s"
    using Suc.prems lt by (simp add: store_live)
  have live: "block ?s a = Some ?blk"
    using Suc.prems by (simp add: block_set_block block_live)
  have ih: "init_i_loop ?s t n src (Suc i)
            = Inr (set_block ?s a (take (Suc i) ?blk @ drop (Suc i) (take n src)))"
    using Suc.hyps(1) [of "Suc i" ?s ?blk] Suc.hyps(2) Suc.prems lt live by simp
  have tk: "take (Suc i) ?blk = take i blk @ [src ! i]"
    using Suc.prems lt by (simp add: take_Suc_conv_app_nth)
  have dr: "drop i (take n src) = src ! i # drop (Suc i) (take n src)"
    using Suc.prems lt by (simp add: Cons_nth_drop_Suc [symmetric])
  show ?case
    using lt Suc.prems st ih tk dr
    by (simp add: init_i_loop.simps [of s t n src i] set_block_twice)
qed

lemma init_i_loop_Inr:
  "init_i_loop s t n src i = Inr s' \<Longrightarrow> i < n \<Longrightarrow> n \<le> length src"
proof (induction s t n src i rule: init_i_loop.induct)
  case (1 s texture n src i)
  show ?case
  proof (cases "Suc i < n")
    case True
    with 1 show ?thesis
      by (auto simp: init_i_loop.simps [of s texture n src i] split: if_splits sum.splits)
  next
    case False
    with 1 show ?thesis
      by (auto simp: init_i_loop.simps [of s texture n src i] split: if_splits sum.splits)
  qed
qed

lemma mul_int_size:
  assumes "uint a * uint b \<le> INT_MAX"
  shows "mul_int a b = Inr (uint a * uint b)" "to_size_t (uint a * uint b) = unat a * unat b"
proof -
  show "mul_int a b = Inr (uint a * uint b)"
    using assms by (simp add: mul_int_def)
  have "0 \<le> uint a * uint b" by simp
  moreover have "uint a * uint b < 2 ^ 64"
    using assms by (simp add: INT_MAX_def)
  ultimately have "uint a * uint b mod 2 ^ 64 = uint a * uint b" by simp
  then show "to_size_t (uint a * uint b) = unat a * unat b"
    by (simp add: to_size_t_def nat_mult_distrib)
qed

lemma mul_int_Inr:
  assumes "mul_int a b = Inr n"
  shows "n = uint a * uint b" "uint a * uint b \<le> INT_MAX" "to_size_t n = unat a * unat b"
proof -
  show n: "n = uint a * uint b" and le: "uint a * uint b \<le> INT_MAX"
    using assms by (auto simp: mul_int_def split: if_splits)
  show "to_size_t n = unat a * unat b"
    using mul_int_size(2) [OF le] n by simp
qed

lemma fits_int: "(uint a * uint b \<le> INT_MAX) = (unat a * unat b \<le> 2147483647)"
proof -
  have "uint a * uint b = int (unat a * unat b)" by simp
  then show ?thesis unfolding INT_MAX_def by linarith
qed

lemma calloc_ok:
  "4 * n \<le> avail s \<Longrightarrow> n \<le> 2147483647 \<Longrightarrow>
   calloc s n sizeof_uint32 =
     (s\<lparr>heap := heap s @ [Some (replicate n 0)], avail := avail s - 4 * n\<rparr>, Ptr (length (heap s)))"
  by (simp add: calloc_def sizeof_uint32_def SIZE_MAX_def new_block_def mult.commute)

lemma calloc_Ptr:
  "calloc s n sizeof_uint32 = (s1, Ptr a) \<Longrightarrow>
   4 * n \<le> avail s \<and> a = length (heap s) \<and>
   s1 = s\<lparr>heap := heap s @ [Some (replicate n 0)], avail := avail s - 4 * n\<rparr>"
  by (auto simp: calloc_def sizeof_uint32_def SIZE_MAX_def new_block_def mult.commute split: if_splits)

lemma block_new:
  "block (s\<lparr>heap := heap s @ [Some blk], avail := k\<rparr>) (length (heap s)) = Some blk"
  by (simp add: block_def)

lemma set_block_new:
  "set_block (s\<lparr>heap := heap s @ [Some blk], avail := k\<rparr>) (length (heap s)) blk'
   = s\<lparr>heap := heap s @ [Some blk'], avail := k\<rparr>"
  by (simp add: set_block_def)

lemma initTexture_i_returns:
  assumes "unat wd * unat ht \<le> 2147483647" "4 * (unat wd * unat ht) \<le> avail s"
    "unat wd * unat ht \<le> length src"
  shows "initTexture_i s t wd ht src =
     Inr (s\<lparr>heap := heap s @ [Some (take (unat wd * unat ht) src)],
            avail := avail s - 4 * (unat wd * unat ht)\<rparr>,
          t\<lparr>w := wd, h := ht, data := Ptr (length (heap s))\<rparr>)"
proof -
  let ?n = "unat wd * unat ht"
  let ?s1 = "s\<lparr>heap := heap s @ [Some (replicate ?n 0)], avail := avail s - 4 * ?n\<rparr>"
  let ?t1 = "t\<lparr>w := wd, h := ht, data := Ptr (length (heap s))\<rparr>"
  have fit: "uint wd * uint ht \<le> INT_MAX"
    using assms(1) by (simp only: fits_int)
  have loop: "init_i_loop ?s1 ?t1 ?n src 0
              = Inr (set_block ?s1 (length (heap s)) (take 0 (replicate ?n 0) @ drop 0 (take ?n src)))"
    by (rule init_i_loop_copies [where blk = "replicate ?n 0"])
       (use assms in \<open>simp_all add: block_new\<close>)
  show ?thesis
    using mul_int_size [OF fit] calloc_ok [OF assms(2) assms(1)] loop
    by (simp add: initTexture_i_def set_block_new)
qed

lemma initTexture_i_Inr:
  assumes "initTexture_i s t wd ht src = Inr r"
  shows "unat wd * unat ht \<le> 2147483647 \<and> 4 * (unat wd * unat ht) \<le> avail s"
proof -
  from assms obtain n where n: "mul_int wd ht = Inr n"
    by (auto simp: initTexture_i_def split: sum.splits)
  obtain s1 p where c: "calloc s (to_size_t n) sizeof_uint32 = (s1, p)"
    by (cases "calloc s (to_size_t n) sizeof_uint32")
  from assms n c obtain a where "p = Ptr a"
    by (auto simp: initTexture_i_def split: pointer.splits)
  with c calloc_Ptr [of s "to_size_t n" s1 a] mul_int_Inr [OF n] show ?thesis
    by (simp add: fits_int)
qed

subsection \<open>writeTexture\<close>

lemma load_live:
  "block s a = Some blk \<Longrightarrow> i < length blk \<Longrightarrow> load s (Ptr a) i = Inr (blk ! i)"
  by (simp add: load_def)

lemma csv_fields_Cons: "csv_fields (n # ns) = decimal n @ '','' @ csv_fields ns"
  by (simp add: csv_fields_def)

lemma csv_fields_Nil: "csv_fields [] = []"
  by (simp add: csv_fields_def)

lemma csv_fields_append: "csv_fields (xs @ ys) = csv_fields xs @ csv_fields ys"
  by (simp add: csv_fields_def)

lemma write_loop_prints:
  assumes "data t = Ptr a" "block s a = Some blk" "n \<le> length blk" "i \<le> n"
  shows "write_loop s t n out i = Inr (out @ csv_fields (map unat (drop i (take n blk))))"
  using assms
proof (induction "n - i" arbitrary: i out)
  case 0
  then show ?case
    by (simp add: write_loop.simps csv_fields_Nil)
next
  case (Suc k)
  then have lt: "i < n" by simp
  have ld: "load s (data t) i = Inr (blk ! i)"
    using Suc.prems lt by (simp add: load_live)
  have dr: "drop i (take n blk) = blk ! i # drop (Suc i) (take n blk)"
    using Suc.prems lt by (simp add: Cons_nth_drop_Suc [symmetric])
  have ih: "write_loop s t n (out @ decimal (unat (blk ! i)) @ '','') (Suc i)
            = Inr ((out @ decimal (unat (blk ! i)) @ '','') @ csv_fields (map unat (drop (Suc i) (take n blk))))"
    using Suc.hyps(1) [of "Suc i"] Suc.hyps(2) Suc.prems lt by simp
  show ?case
    using lt ld ih dr by (simp add: write_loop.simps [of s t n out i] csv_fields_Cons)
qed

lemma write_loop_zero: "write_loop s t 0 out 0 = Inr out"
  by (simp add: write_loop.simps)

lemma write_loop_heap:
  "heap s1 = heap s \<Longrightarrow> write_loop s1 t n out i = write_loop s t n out i"
proof (induction s t n out i rule: write_loop.induct)
  case (1 s t n out i)
  have "block s1 = block s"
    using 1(2) by (simp add: block_def fun_eq_iff)
  then have ld: "load s1 (data t) i = load s (data t) i"
    by (simp add: load_def split: pointer.splits)
  show ?case
  proof (cases "i < n")
    case True
    show ?thesis
    proof (cases "load s (data t) i")
      case (Inl e)
      then show ?thesis
        using True ld by (simp add: write_loop.simps [of _ t n out i])
    next
      case (Inr v)
      then show ?thesis
        using True ld 1(1) [OF True Inr 1(2)] by (simp add: write_loop.simps [of _ t n out i])
    qed
  next
    case False
    then show ?thesis by (simp add: write_loop.simps [of _ t n out i])
  qed
qed

lemma writeTexture_returns:
  assumes "populated s t" "writable s p" "unat (w t) * unat (h t) \<le> 2147483647"
  shows "\<exists>blk. buffer s t = Some blk \<and>
           writeTexture s t p = Inr (s\<lparr>files := (files s)(p \<mapsto> csv_record (w t) (h t) blk)\<rparr>)"
proof -
  from assms(1) obtain a blk where a: "data t = Ptr a" and b: "block s a = Some blk"
    and l: "length blk = unat (w t) * unat (h t)"
    by (auto simp: populated_def buffer_def split: pointer.splits option.splits)
  have fit: "uint (w t) * uint (h t) \<le> INT_MAX"
    using assms(3) by (simp only: fits_int)
  have "write_loop s t (unat (w t) * unat (h t)) (decimal (unat (w t)) @ '','' @ decimal (unat (h t)) @ '','') 0
        = Inr ((decimal (unat (w t)) @ '','' @ decimal (unat (h t)) @ '','') @ csv_fields (map unat (drop 0 (take (unat (w t) * unat (h t)) blk))))"
    by (rule write_loop_prints [OF a b]) (simp_all add: l)
  then have "writeTexture s t p = Inr (s\<lparr>files := (files s)(p \<mapsto> csv_record (w t) (h t) blk)\<rparr>)"
    using assms(2) mul_int_size [OF fit] l
    by (simp add: writeTexture_def csv_record_def csv_fields_Cons)
  then show ?thesis
    using a b by (simp add: buffer_def)
qed

lemma writeTexture_Inr:
  assumes "writeTexture s t p = Inr s1"
  shows "writable s p \<and> unat (w t) * unat (h t) \<le> 2147483647
         \<and> (\<exists>out. s1 = s\<lparr>files := (files s)(p \<mapsto> out)\<rparr>)"
proof -
  from assms have wr: "writable s p"
    by (auto simp: writeTexture_def split: if_splits)
  from assms wr obtain n where n: "mul_int (w t) (h t) = Inr n"
    by (auto simp: writeTexture_def split: sum.splits)
  from assms wr n have "\<exists>out. s1 = s\<lparr>files := (files s)(p \<mapsto> out)\<rparr>"
    by (auto simp: writeTexture_def split: sum.splits)
  with wr mul_int_Inr(2) [OF n] show ?thesis
    by (simp add: fits_int)
qed

subsection \<open>Scanning what was printed\<close>

lemma digit_cases:
  "d < 10 \<Longrightarrow> d = 0 \<or> d = 1 \<or> d = 2 \<or> d = 3 \<or> d = 4 \<or> d = 5 \<or> d = 6 \<or> d = 7 \<or> d = 8 \<or> d = (9::nat)"
  by arith

lemma digit_char_props:
  assumes "d < 10"
  shows "isdigit (digit_char d)" "digit_value (digit_char d) = d" "\<not> isspace (digit_char d)"
    "digit_char d \<noteq> CHR ''-''" "digit_char d \<noteq> CHR ''+''" "digit_char d \<noteq> CHR '',''"
  using digit_cases [OF assms]
  by (auto simp: digit_char_def isdigit_def digit_value_def isspace_def)

lemma decimal_head: "\<exists>d cs. d < 10 \<and> decimal n = digit_char d # cs"
proof (induction n rule: decimal.induct)
  case (1 n)
  show ?case
  proof (cases "n < 10")
    case True
    then show ?thesis by (auto simp: decimal.simps [of n])
  next
    case False
    with 1 obtain d cs where "d < 10" "decimal (n div 10) = digit_char d # cs" by auto
    with False show ?thesis by (auto simp: decimal.simps [of n])
  qed
qed

lemma decimal_isdigit: "c \<in> set (decimal n) \<Longrightarrow> isdigit c"
proof (induction n rule: decimal.induct)
  case (1 n)
  show ?case
  proof (cases "n < 10")
    case True
    with 1(2) show ?thesis by (auto simp: decimal.simps [of n] digit_char_props)
  next
    case False
    with 1 show ?thesis by (auto simp: decimal.simps [of n] digit_char_props)
  qed
qed

lemma scan_digits_decimal:
  "scan_digits acc (decimal n @ r) = scan_digits (acc * 10 ^ length (decimal n) + n) r"
proof (induction n arbitrary: acc r rule: decimal.induct)
  case (1 n)
  show ?case
  proof (cases "n < 10")
    case True
    then show ?thesis by (simp add: decimal.simps [of n] digit_char_props)
  next
    case False
    have "scan_digits acc (decimal n @ r)
          = scan_digits acc (decimal (n div 10) @ (digit_char (n mod 10) # r))"
      using False by (simp add: decimal.simps [of n])
    also have "\<dots> = scan_digits (acc * 10 ^ length (decimal (n div 10)) + n div 10)
                       (digit_char (n mod 10) # r)"
      using False by (rule 1)
    also have "\<dots> = scan_digits ((acc * 10 ^ length (decimal (n div 10)) + n div 10) * 10 + n mod 10) r"
      by (simp add: digit_char_props)
    also have "(acc * 10 ^ length (decimal (n div 10)) + n div 10) * 10 + n mod 10
               = acc * 10 ^ length (decimal n) + n"
      using False by (simp add: decimal.simps [of n] algebra_simps)
    finally show ?thesis .
  qed
qed

lemma isdigit_comma: "\<not> isdigit CHR '',''"
  by (simp add: isdigit_def)

lemma scan_digits_field: "scan_digits 0 (decimal n @ CHR '','' # r) = (n, CHR '','' # r)"
  by (simp add: scan_digits_decimal isdigit_comma)

lemma scan_unsigned_field:
  "scan_unsigned bits (decimal n @ CHR '','' # r)
   = (if 2 ^ bits \<le> n then Inl ScanRange else Inr (Some n, CHR '','' # r))"
proof -
  obtain d cs where d: "d < 10" and dec: "decimal n = digit_char d # cs"
    using decimal_head by blast
  have sc: "scan_digits 0 (digit_char d # cs @ CHR '','' # r) = (n, CHR '','' # r)"
    using scan_digits_field [of n r] dec by simp
  show ?thesis
    unfolding scan_unsigned_def dec
    using sc by (simp add: digit_char_props [OF d] Let_def del: scan_digits.simps)
qed

lemma match_comma_Cons: "match_comma (CHR '','' # r) = Some r"
  by (simp add: match_comma_def)

lemma scan_header_fields:
  assumes "a < 65536" "b < 65536"
  shows "scan_header t (csv_fields (a # b # ns) @ r)
         = Inr (t\<lparr>w := of_nat a, h := of_nat b\<rparr>, csv_fields ns @ r)"
  using assms
  by (simp add: scan_header_def csv_fields_Cons scan_unsigned_field match_comma_Cons)

lemma read_loop_fields:
  assumes "data t = Ptr a" "block s a = Some blk" "length blk = n" "i \<le> n"
    "n - i \<le> length ns" "\<forall>v \<in> set ns. v < 4294967296"
  shows "read_loop s t n (csv_fields ns @ r) i
         = Inr (set_block s a (take i blk @ map of_nat (take (n - i) ns)))"
  using assms
proof (induction "n - i" arbitrary: i s blk ns)
  case 0
  then show ?case
    by (simp add: read_loop.simps set_block_same)
next
  case (Suc k)
  then have lt: "i < n" by simp
  with Suc.prems obtain v vs where ns: "ns = v # vs"
    by (cases ns) auto
  have v: "v < 4294967296" using Suc.prems ns by simp
  let ?blk = "blk[i := of_nat v]"
  let ?s = "set_block s a ?blk"
  have sc: "scan_unsigned 32 (csv_fields ns @ r) = Inr (Some v, CHR '','' # csv_fields vs @ r)"
    using v by (simp add: ns csv_fields_Cons scan_unsigned_field)
  have st: "store s (data t) i (of_nat v) = Inr ?s"
    using Suc.prems lt by (simp add: store_live)
  have live: "block ?s a = Some ?blk"
    using Suc.prems by (simp add: block_set_block block_live)
  have ih: "read_loop ?s t n (csv_fields vs @ r) (Suc i)
            = Inr (set_block ?s a (take (Suc i) ?blk @ map of_nat (take (n - Suc i) vs)))"
    using Suc.hyps(1) [of "Suc i" ?s ?blk vs] Suc.hyps(2) Suc.prems lt live ns by simp
  have tk: "take (Suc i) ?blk = take i blk @ [of_nat v]"
    using Suc.prems lt by (simp add: take_Suc_conv_app_nth)
  have "n - i = Suc (n - Suc i)"
    using lt by simp
  then have tn: "take (n - i) ns = v # take (n - Suc i) vs"
    by (simp only: ns take_Suc_Cons)
  show ?case
    using lt sc st ih tk tn
    by (simp add: read_loop.simps [of s t n _ i] set_block_twice match_comma_Cons)
qed


subsection \<open>Claims on initTexture\_i and writeTexture\<close>

lemma buffer_new:
  "buffer (s\<lparr>heap := heap s @ [Some blk], avail := k\<rparr>) (t\<lparr>w := wd, h := ht, data := Ptr (length (heap s))\<rparr>)
   = Some blk"
  by (simp add: buffer_def block_def)

text \<open>
  C4. For every width, height and array of \<open>width * height\<close> samples: whenever
  \<open>initTexture_i\<close> returns, the texture has the given width and height and its
  buffer is the sample array, element for element and unscaled. It does return
  when the product fits an \<open>int\<close> (\<open>INT_MAX = 2147483647\<close>) and the allocator has
  the bytes.
\<close>

theorem initTexture_i_copies:
  assumes "length src = unat wd * unat ht"
  shows "(\<forall>s' t'. initTexture_i s t wd ht src = Inr (s', t') \<longrightarrow>
            w t' = wd \<and> h t' = ht \<and> buffer s' t' = Some src)
       \<and> (unat wd * unat ht \<le> 2147483647 \<and> 4 * (unat wd * unat ht) \<le> avail s \<longrightarrow>
            (\<exists>s' t'. initTexture_i s t wd ht src = Inr (s', t')))"
proof (intro conjI allI impI)
  fix s' t'
  assume r: "initTexture_i s t wd ht src = Inr (s', t')"
  from initTexture_i_Inr [OF r]
  have "initTexture_i s t wd ht src =
     Inr (s\<lparr>heap := heap s @ [Some (take (unat wd * unat ht) src)],
            avail := avail s - 4 * (unat wd * unat ht)\<rparr>,
          t\<lparr>w := wd, h := ht, data := Ptr (length (heap s))\<rparr>)"
    using assms by (intro initTexture_i_returns) simp_all
  with r assms show "w t' = wd" "h t' = ht" "buffer s' t' = Some src"
    by (auto simp: buffer_new)
next
  assume "unat wd * unat ht \<le> 2147483647 \<and> 4 * (unat wd * unat ht) \<le> avail s"
  then show "\<exists>s' t'. initTexture_i s t wd ht src = Inr (s', t')"
    using assms initTexture_i_returns [of wd ht s src t] by simp
qed

theorem initTexture_i_copies_witness:
  "\<exists>s' t'. initTexture_i
       \<lparr>heap = [], avail = 1000, garbage = (\<lambda>_. 0), files = (\<lambda>_. None), writable = (\<lambda>_. True)\<rparr>
       \<lparr>w = 0, h = 0, data = NULL\<rparr> 2 2 [10, 20, 30, 40] = Inr (s', t')
     \<and> w t' = 2 \<and> h t' = 2 \<and> buffer s' t' = Some [10, 20, 30, 40]"
  using initTexture_i_copies [of "[10, 20, 30, 40]" 2 2
       "\<lparr>heap = [], avail = 1000, garbage = (\<lambda>_. 0), files = (\<lambda>_. None), writable = (\<lambda>_. True)\<rparr>"
       "\<lparr>w = 0, h = 0, data = NULL\<rparr>"]
  by auto

lemma csv_fields_chars: "c \<in> set (csv_fields ns) \<Longrightarrow> isdigit c \<or> c = CHR '',''"
  by (auto simp: csv_fields_def dest: decimal_isdigit split: if_splits)

lemma isdigit_newline: "\<not> isdigit (CHR 0x0A)"
  by (simp add: isdigit_def)

text \<open>
  C3. For every populated texture: whenever \<open>writeTexture\<close> returns, the file at
  the path holds the width, the height and every element of the buffer in order,
  each as its decimal digits followed by a comma, the last element included; the
  file holds nothing but digits and commas, so no newline. It does return when
  the path can be opened and the product of the extents fits an \<open>int\<close>.
\<close>

theorem writeTexture_record:
  assumes "populated s t"
  shows "(\<forall>s'. writeTexture s t p = Inr s' \<longrightarrow>
            (\<exists>blk out. buffer s t = Some blk \<and> files s' p = Some out
               \<and> out = decimal (unat (w t)) @ '','' @ decimal (unat (h t)) @ '',''
                        @ concat (map (\<lambda>v. decimal (unat v) @ '','') blk)
               \<and> (\<forall>c \<in> set out. isdigit c \<or> c = CHR '','')
               \<and> CHR 0x0A \<notin> set out))
       \<and> (writable s p \<and> unat (w t) * unat (h t) \<le> 2147483647 \<longrightarrow>
            (\<exists>s'. writeTexture s t p = Inr s'))"
proof (intro conjI allI impI)
  fix s'
  assume r: "writeTexture s t p = Inr s'"
  from writeTexture_Inr [OF r] writeTexture_returns [OF assms, of p]
  obtain blk where b: "buffer s t = Some blk"
    and e: "writeTexture s t p = Inr (s\<lparr>files := (files s)(p \<mapsto> csv_record (w t) (h t) blk)\<rparr>)"
    by auto
  let ?out = "csv_record (w t) (h t) blk"
  have f: "files s' p = Some ?out"
    using r e by auto
  have u: "?out = decimal (unat (w t)) @ '','' @ decimal (unat (h t)) @ '',''
                  @ concat (map (\<lambda>v. decimal (unat v) @ '','') blk)"
    by (simp add: csv_record_def csv_fields_def comp_def)
  have c: "\<forall>c \<in> set ?out. isdigit c \<or> c = CHR '',''"
    unfolding csv_record_def using csv_fields_chars by blast
  then have n: "CHR 0x0A \<notin> set ?out"
    using isdigit_newline by fastforce
  show "\<exists>blk out. buffer s t = Some blk \<and> files s' p = Some out
               \<and> out = decimal (unat (w t)) @ '','' @ decimal (unat (h t)) @ '',''
                        @ concat (map (\<lambda>v. decimal (unat v) @ '','') blk)
               \<and> (\<forall>c \<in> set out. isdigit c \<or> c = CHR '','')
               \<and> CHR 0x0A \<notin> set out"
    using b f u c n by blast
next
  assume "writable s p \<and> unat (w t) * unat (h t) \<le> 2147483647"
  then show "\<exists>s'. writeTexture s t p = Inr s'"
    using writeTexture_returns [OF assms, of p] by auto
qed

theorem writeTexture_record_witness:
  "populated
       \<lparr>heap = [Some [0, 4294967295, 2147483647, 1073741823]], avail = 1000, garbage = (\<lambda>_. 0),
          files = (\<lambda>_. None), writable = (\<lambda>_. True)\<rparr>
       \<lparr>w = 2, h = 2, data = Ptr 0\<rparr>
   \<and> (\<exists>s'. writeTexture
       \<lparr>heap = [Some [0, 4294967295, 2147483647, 1073741823]], avail = 1000, garbage = (\<lambda>_. 0),
          files = (\<lambda>_. None), writable = (\<lambda>_. True)\<rparr>
       \<lparr>w = 2, h = 2, data = Ptr 0\<rparr> ''texture.csv'' = Inr s'
     \<and> files s' ''texture.csv'' = Some ''2,2,0,4294967295,2147483647,1073741823,'')"
proof -
  let ?s = "\<lparr>heap = [Some [0, 4294967295, 2147483647, 1073741823]], avail = 1000,
              garbage = (\<lambda>_. 0), files = (\<lambda>_. None), writable = (\<lambda>_. True)\<rparr>"
  let ?t = "\<lparr>w = 2, h = 2, data = Ptr 0\<rparr>"
  have p: "populated ?s ?t"
    by (simp add: populated_def buffer_def block_def)
  have b: "buffer ?s ?t = Some [0, 4294967295, 2147483647, 1073741823]"
    by (simp add: buffer_def block_def)
  have d: "decimal 2 = ''2''" "decimal 0 = ''0''" "decimal 4294967295 = ''4294967295''"
    "decimal 2147483647 = ''2147483647''" "decimal 1073741823 = ''1073741823''"
    by (simp_all add: decimal.simps digit_char_def)
  from writeTexture_record [OF p, of "''texture.csv''"] b d p show ?thesis
    by auto
qed

text \<open>
  C9. \<open>writeTexture\<close> takes the texture as a constant and changes the world
  only in the files: after it returns, the heap and the texture's buffer are as
  before, writing the same texture to the same path again changes nothing, and
  writing it to any path that can be opened gives a file with the same contents.
\<close>

theorem writeTexture_frame:
  assumes "writeTexture s t p = Inr s1"
  shows "heap s1 = heap s \<and> buffer s1 t = buffer s t \<and> writeTexture s1 t p = Inr s1
       \<and> (\<forall>q. writable s q \<longrightarrow>
             (\<exists>s2. writeTexture s1 t q = Inr s2 \<and> files s2 q = files s1 p \<and> heap s2 = heap s))"
proof -
  from assms have wr: "writable s p"
    by (auto simp: writeTexture_def split: if_splits)
  from assms wr obtain n where n: "mul_int (w t) (h t) = Inr n"
    by (auto simp: writeTexture_def split: sum.splits)
  let ?hd = "decimal (unat (w t)) @ '','' @ decimal (unat (h t)) @ '',''"
  from assms wr n obtain out where l: "write_loop s t (to_size_t n) ?hd 0 = Inr out"
    and s1: "s1 = s\<lparr>files := (files s)(p \<mapsto> out)\<rparr>"
    by (auto simp: writeTexture_def split: sum.splits)
  have hp: "heap s1 = heap s" by (simp add: s1)
  then have bl: "block s1 = block s" by (simp add: block_def fun_eq_iff)
  have l1: "write_loop s1 t (to_size_t n) ?hd 0 = Inr out"
    using write_loop_heap [OF hp] l by simp
  have again: "writeTexture s1 t p = Inr s1"
    using l1 n wr by (simp add: writeTexture_def s1)
  have other: "\<exists>s2. writeTexture s1 t q = Inr s2 \<and> files s2 q = files s1 p \<and> heap s2 = heap s"
    if "writable s q" for q
    using that l1 n by (simp add: writeTexture_def s1)
  have bf: "buffer s1 t = buffer s t"
    using bl by (simp add: buffer_def split: pointer.splits)
  show ?thesis
    using hp bf again other by simp
qed

theorem writeTexture_frame_witness:
  "\<exists>s1. writeTexture
       \<lparr>heap = [Some [5, 6]], avail = 1000, garbage = (\<lambda>_. 0),
          files = (\<lambda>_. None), writable = (\<lambda>_. True)\<rparr>
       \<lparr>w = 2, h = 1, data = Ptr 0\<rparr> ''a.csv'' = Inr s1
     \<and> heap s1 = [Some [5, 6]] \<and> buffer s1 \<lparr>w = 2, h = 1, data = Ptr 0\<rparr> = Some [5, 6]
     \<and> writeTexture s1 \<lparr>w = 2, h = 1, data = Ptr 0\<rparr> ''a.csv'' = Inr s1"
proof -
  let ?s = "\<lparr>heap = [Some [5, 6]], avail = 1000, garbage = (\<lambda>_. 0),
              files = (\<lambda>_. None), writable = (\<lambda>_. True)\<rparr>"
  let ?t = "\<lparr>w = 2, h = 1, data = Ptr 0\<rparr>"
  have p: "populated ?s ?t"
    by (simp add: populated_def buffer_def block_def)
  from writeTexture_returns [OF p, of "''a.csv''"]
  obtain s1 where r: "writeTexture ?s ?t ''a.csv'' = Inr s1"
    by auto
  from writeTexture_frame [OF r] r show ?thesis
    by (auto simp: buffer_def block_def)
qed

subsection \<open>Claims on readTexture\<close>

lemma unat_of_nat16: "a < 65536 \<Longrightarrow> unat (of_nat a :: uint16) = a"
  by (simp add: unat_of_nat)

lemma malloc_ok:
  "n \<le> 2147483647 \<Longrightarrow> 4 * n \<le> avail s \<Longrightarrow>
   malloc s ((n * sizeof_uint32) mod 2 ^ 64) =
     (s\<lparr>heap := heap s @ [Some (map (garbage s) [0..<n])], avail := avail s - 4 * n\<rparr>,
      Ptr (length (heap s)))"
  by (simp add: malloc_def sizeof_uint32_def new_block_def mult.commute)

lemma malloc_Ptr:
  "n \<le> 2147483647 \<Longrightarrow> malloc s ((n * sizeof_uint32) mod 2 ^ 64) = (s1, Ptr a) \<Longrightarrow>
   4 * n \<le> avail s"
  by (auto simp: malloc_def sizeof_uint32_def new_block_def mult.commute split: if_splits)

lemma readTexture_returns:
  assumes "files s p = Some (csv_fields (a # b # ns) @ r)" "a < 65536" "b < 65536"
    "\<forall>v \<in> set ns. v < 4294967296" "a * b \<le> length ns"
    "a * b \<le> 2147483647" "4 * (a * b) \<le> avail s"
  shows "readTexture s t p =
     Inr (s\<lparr>heap := heap s @ [Some (map of_nat (take (a * b) ns))],
            avail := avail s - 4 * (a * b)\<rparr>,
          t\<lparr>w := of_nat a, h := of_nat b, data := Ptr (length (heap s))\<rparr>)"
proof -
  let ?t1 = "t\<lparr>w := of_nat a, h := of_nat b\<rparr>"
  let ?n = "a * b"
  let ?s1 = "s\<lparr>heap := heap s @ [Some (map (garbage s) [0..<?n])], avail := avail s - 4 * ?n\<rparr>"
  have hd: "scan_header t (csv_fields (a # b # ns) @ r) = Inr (?t1, csv_fields ns @ r)"
    using assms(2,3) by (rule scan_header_fields)
  have n: "unat (w ?t1) * unat (h ?t1) = ?n"
    using assms(2,3) by (simp add: unat_of_nat16)
  have fit: "uint (w ?t1) * uint (h ?t1) \<le> INT_MAX"
    using assms(6) n by (simp only: fits_int)
  have loop: "read_loop ?s1 (?t1\<lparr>data := Ptr (length (heap s))\<rparr>) ?n (csv_fields ns @ r) 0
     = Inr (set_block ?s1 (length (heap s))
              (take 0 (map (garbage s) [0..<?n]) @ map of_nat (take (?n - 0) ns)))"
    by (rule read_loop_fields [where blk = "map (garbage s) [0..<?n]"])
       (use assms in \<open>simp_all add: block_new\<close>)
  show ?thesis
    using assms(1) hd mul_int_size [OF fit] n malloc_ok [OF assms(6,7)] loop
    by (simp add: readTexture_def set_block_new)
qed

lemma readTexture_Inr:
  assumes "files s p = Some (csv_fields (a # b # ns) @ r)" "a < 65536" "b < 65536"
    "readTexture s t p = Inr res"
  shows "a * b \<le> 2147483647 \<and> 4 * (a * b) \<le> avail s"
proof -
  let ?t1 = "t\<lparr>w := of_nat a, h := of_nat b\<rparr>"
  have hd: "scan_header t (csv_fields (a # b # ns) @ r) = Inr (?t1, csv_fields ns @ r)"
    using assms(2,3) by (rule scan_header_fields)
  have n: "unat (w ?t1) * unat (h ?t1) = a * b"
    using assms(2,3) by (simp add: unat_of_nat16)
  from assms(1,4) hd obtain k where k: "mul_int (w ?t1) (h ?t1) = Inr k"
    by (auto simp: readTexture_def split: sum.splits)
  from mul_int_Inr [OF k] n have fit: "a * b \<le> 2147483647" and sz: "to_size_t k = a * b"
    by (simp_all add: fits_int)
  obtain s1 q where m: "malloc s ((a * b * sizeof_uint32) mod 2 ^ 64) = (s1, q)"
    by (cases "malloc s ((a * b * sizeof_uint32) mod 2 ^ 64)")
  from assms(1,4) hd k sz m obtain ad where "q = Ptr ad"
    by (auto simp: readTexture_def split: pointer.splits)
  with m malloc_Ptr [OF fit] fit show ?thesis
    by simp
qed

text \<open>
  C5. For every file that starts with a well-formed record, the fields
  \<open>a, b, ns\<close> each in decimal and followed by a comma, with \<open>a\<close> and \<open>b\<close> in the
  range of \<open>uint16_t\<close>, the data fields in the range of \<open>uint32_t\<close> and at least
  \<open>a * b\<close> of them: whenever \<open>readTexture\<close> returns, the width is the first
  field, the height the second, the buffer has \<open>a * b\<close> elements and element
  \<open>i\<close> is field \<open>i + 2\<close> of the file (counted from 0). It does return when
  \<open>a * b\<close> fits an \<open>int\<close> and the allocator has the bytes.
\<close>

theorem readTexture_parses_fields:
  assumes "files s p = Some (csv_fields (a # b # ns) @ r)" "a < 65536" "b < 65536"
    "\<forall>v \<in> set ns. v < 4294967296" "a * b \<le> length ns"
  shows "(\<forall>s' t'. readTexture s t p = Inr (s', t') \<longrightarrow>
            unat (w t') = a \<and> unat (h t') = b
            \<and> (\<exists>blk. buffer s' t' = Some blk \<and> length blk = a * b
                  \<and> (\<forall>i < a * b. unat (blk ! i) = (a # b # ns) ! (i + 2))))
       \<and> (a * b \<le> 2147483647 \<and> 4 * (a * b) \<le> avail s \<longrightarrow>
            (\<exists>s' t'. readTexture s t p = Inr (s', t')))"
proof (intro conjI allI impI)
  fix s' t'
  assume res: "readTexture s t p = Inr (s', t')"
  from readTexture_Inr [OF assms(1,2,3) res]
  have "readTexture s t p =
     Inr (s\<lparr>heap := heap s @ [Some (map of_nat (take (a * b) ns))],
            avail := avail s - 4 * (a * b)\<rparr>,
          t\<lparr>w := of_nat a, h := of_nat b, data := Ptr (length (heap s))\<rparr>)"
    using assms by (intro readTexture_returns) simp_all
  with res have s': "s' = s\<lparr>heap := heap s @ [Some (map of_nat (take (a * b) ns))],
            avail := avail s - 4 * (a * b)\<rparr>"
    and t': "t' = t\<lparr>w := of_nat a, h := of_nat b, data := Ptr (length (heap s))\<rparr>"
    by simp_all
  show "unat (w t') = a" "unat (h t') = b"
    using assms(2,3) by (simp_all add: t' unat_of_nat16)
  let ?blk = "map of_nat (take (a * b) ns) :: uint32 list"
  have b: "buffer s' t' = Some ?blk"
    unfolding s' t' by (rule buffer_new)
  have l: "length ?blk = a * b"
    using assms(5) by simp
  have e: "unat (?blk ! i) = (a # b # ns) ! (i + 2)" if "i < a * b" for i
  proof -
    have "ns ! i \<in> set ns" using that assms(5) by simp
    then have "ns ! i < 4294967296" using assms(4) by blast
    then show ?thesis using that assms(5) by (simp add: unat_of_nat)
  qed
  show "\<exists>blk. buffer s' t' = Some blk \<and> length blk = a * b
                  \<and> (\<forall>i < a * b. unat (blk ! i) = (a # b # ns) ! (i + 2))"
    using b l e by blast
next
  assume "a * b \<le> 2147483647 \<and> 4 * (a * b) \<le> avail s"
  then show "\<exists>s' t'. readTexture s t p = Inr (s', t')"
    using readTexture_returns [OF assms, of t] by simp
qed

theorem readTexture_parses_fields_witness:
  "\<exists>s' t'. readTexture
       \<lparr>heap = [], avail = 1000, garbage = (\<lambda>_. 0),
          files = (\<lambda>_. Some ''2,1,7,8,9,''), writable = (\<lambda>_. True)\<rparr>
       \<lparr>w = 0, h = 0, data = NULL\<rparr> ''in.csv'' = Inr (s', t')
     \<and> unat (w t') = 2 \<and> unat (h t') = 1
     \<and> (\<exists>blk. buffer s' t' = Some blk \<and> length blk = 2
           \<and> unat (blk ! 0) = 7 \<and> unat (blk ! 1) = 8)"
proof -
  let ?s = "\<lparr>heap = [], avail = 1000, garbage = (\<lambda>_. 0),
              files = (\<lambda>_. Some ''2,1,7,8,9,''), writable = (\<lambda>_. True)\<rparr>"
  let ?t = "\<lparr>w = 0, h = 0, data = NULL\<rparr>"
  have f: "files ?s ''in.csv'' = Some (csv_fields (2 # 1 # [7, 8, 9]) @ [])"
    by (simp add: csv_fields_def decimal.simps digit_char_def)
  have v: "\<forall>v \<in> set [7, 8, 9 :: nat]. v < 4294967296"
    by simp
  from readTexture_parses_fields [OF f _ _ v, of ?t]
  obtain s' t' where r: "readTexture ?s ?t ''in.csv'' = Inr (s', t')"
    and wh: "unat (w t') = 2" "unat (h t') = 1"
    and b: "\<exists>blk. buffer s' t' = Some blk \<and> length blk = 2 * 1
                \<and> (\<forall>i < 2 * 1. unat (blk ! i) = (2 # 1 # [7, 8, 9]) ! (i + 2))"
    by auto
  from b obtain blk where bf: "buffer s' t' = Some blk" and l: "length blk = 2"
    and e: "\<forall>i < 2. unat (blk ! i) = (2 # 1 # [7, 8, 9 :: nat]) ! (i + 2)"
    by auto
  from e have "unat (blk ! 0) = 7" "unat (blk ! 1) = 8"
    by auto
  with r wh bf l show ?thesis
    by blast
qed

lemma unat16_bound: "unat (x :: uint16) < 65536"
  using unsigned_less [of x] by simp

lemma unat32_bound: "unat (x :: uint32) < 4294967296"
  using unsigned_less [of x] by simp

lemma of_nat_unat_map: "map (of_nat \<circ> unat) blk = (blk :: uint32 list)"
  by (induction blk) simp_all

lemma populated_buffer:
  "populated s t \<Longrightarrow> \<exists>blk. buffer s t = Some blk \<and> length blk = unat (w t) * unat (h t)"
  by (auto simp: populated_def split: option.splits)

text \<open>
  C1. For every populated texture, every path and every texture to read into:
  whenever \<open>writeTexture\<close> and then \<open>readTexture\<close> of that path return, the
  texture read has the width, the height and the buffer contents of the one
  written. Both do return when the path can be opened, the product of the
  extents fits an \<open>int\<close> and the allocator has the bytes.
\<close>

theorem write_read_roundtrip:
  assumes "populated s t"
  shows "(\<forall>s1 s2 t'. writeTexture s t p = Inr s1 \<and> readTexture s1 t0 p = Inr (s2, t') \<longrightarrow>
            w t' = w t \<and> h t' = h t \<and> buffer s2 t' = buffer s t)
       \<and> (writable s p \<and> unat (w t) * unat (h t) \<le> 2147483647
            \<and> 4 * (unat (w t) * unat (h t)) \<le> avail s \<longrightarrow>
            (\<exists>s1 s2 t'. writeTexture s t p = Inr s1 \<and> readTexture s1 t0 p = Inr (s2, t')))"
proof -
  let ?a = "unat (w t)" and ?b = "unat (h t)"
  from populated_buffer [OF assms] obtain blk where b: "buffer s t = Some blk"
    and l: "length blk = ?a * ?b"
    by auto
  let ?ns = "map unat blk"
  let ?s1 = "s\<lparr>files := (files s)(p \<mapsto> csv_record (w t) (h t) blk)\<rparr>"
  have f: "files ?s1 p = Some (csv_fields (?a # ?b # ?ns) @ [])"
    by (simp add: csv_record_def)
  have v: "\<forall>v \<in> set ?ns. v < 4294967296"
    by (auto simp: unat32_bound)
  have ln: "?a * ?b \<le> length ?ns"
    using l by simp
  have inv: "map of_nat (take (?a * ?b) ?ns) = blk"
    using l by (simp add: of_nat_unat_map)
  have rd: "readTexture ?s1 t0 p =
     Inr (?s1\<lparr>heap := heap ?s1 @ [Some blk], avail := avail ?s1 - 4 * (?a * ?b)\<rparr>,
          t0\<lparr>w := w t, h := h t, data := Ptr (length (heap ?s1))\<rparr>)"
    if "?a * ?b \<le> 2147483647" and "4 * (?a * ?b) \<le> avail s"
    using readTexture_returns [OF f unat16_bound unat16_bound v ln, of t0] that inv
    by simp
  have wr: "writeTexture s t p = Inr ?s1" if "writeTexture s t p = Inr s1" for s1
    using writeTexture_Inr [OF that] writeTexture_returns [OF assms, of p] b by auto
  show ?thesis
  proof (intro conjI allI impI)
    fix s1 s2 t'
    assume h: "writeTexture s t p = Inr s1 \<and> readTexture s1 t0 p = Inr (s2, t')"
    then have s1: "s1 = ?s1"
      using wr [of s1] by simp
    with h have r: "readTexture ?s1 t0 p = Inr (s2, t')"
      by simp
    from readTexture_Inr [OF f unat16_bound unat16_bound r]
    have "readTexture ?s1 t0 p =
     Inr (?s1\<lparr>heap := heap ?s1 @ [Some blk], avail := avail ?s1 - 4 * (?a * ?b)\<rparr>,
          t0\<lparr>w := w t, h := h t, data := Ptr (length (heap ?s1))\<rparr>)"
      by (intro rd) simp_all
    with r have s2: "s2 = ?s1\<lparr>heap := heap ?s1 @ [Some blk], avail := avail ?s1 - 4 * (?a * ?b)\<rparr>"
      and t': "t' = t0\<lparr>w := w t, h := h t, data := Ptr (length (heap ?s1))\<rparr>"
      by simp_all
    show "w t' = w t" "h t' = h t"
      by (simp_all add: t')
    show "buffer s2 t' = buffer s t"
      unfolding s2 t' b by (rule buffer_new)
  next
    assume h: "writable s p \<and> unat (w t) * unat (h t) \<le> 2147483647
            \<and> 4 * (unat (w t) * unat (h t)) \<le> avail s"
    then have "writeTexture s t p = Inr ?s1"
      using writeTexture_returns [OF assms, of p] b by auto
    with rd h show "\<exists>s1 s2 t'. writeTexture s t p = Inr s1 \<and> readTexture s1 t0 p = Inr (s2, t')"
      by blast
  qed
qed

theorem write_read_roundtrip_witness:
  "populated
       \<lparr>heap = [Some [0, 4294967295, 2147483647, 1073741823]], avail = 1000, garbage = (\<lambda>_. 0),
          files = (\<lambda>_. None), writable = (\<lambda>_. True)\<rparr>
       \<lparr>w = 2, h = 2, data = Ptr 0\<rparr>
   \<and> (\<exists>s1 s2 t'. writeTexture
       \<lparr>heap = [Some [0, 4294967295, 2147483647, 1073741823]], avail = 1000, garbage = (\<lambda>_. 0),
          files = (\<lambda>_. None), writable = (\<lambda>_. True)\<rparr>
       \<lparr>w = 2, h = 2, data = Ptr 0\<rparr> ''texture.csv'' = Inr s1
     \<and> readTexture s1 \<lparr>w = 0, h = 0, data = NULL\<rparr> ''texture.csv'' = Inr (s2, t')
     \<and> w t' = 2 \<and> h t' = 2
     \<and> buffer s2 t' = Some [0, 4294967295, 2147483647, 1073741823])"
proof -
  let ?s = "\<lparr>heap = [Some [0, 4294967295, 2147483647, 1073741823]], avail = 1000,
              garbage = (\<lambda>_. 0), files = (\<lambda>_. None), writable = (\<lambda>_. True)\<rparr>"
  let ?t = "\<lparr>w = 2, h = 2, data = Ptr 0\<rparr>"
  have p: "populated ?s ?t"
    by (simp add: populated_def buffer_def block_def)
  have b: "buffer ?s ?t = Some [0, 4294967295, 2147483647, 1073741823]"
    by (simp add: buffer_def block_def)
  from write_read_roundtrip [OF p, of "''texture.csv''" "\<lparr>w = 0, h = 0, data = NULL\<rparr>"]
  show ?thesis
    using p b by (auto simp del: ex_simps)
qed

subsection \<open>The buffer length, empty textures, and the scaling of floats\<close>

lemma block_set_block_any:
  "block (set_block s a0 b) a = (if a = a0 \<and> a0 < length (heap s) then Some b else block s a)"
  by (simp add: block_def set_block_def)

lemma store_keeps:
  assumes "store s p i v = Inr s'" "block s a = Some blk"
  shows "\<exists>blk'. block s' a = Some blk' \<and> length blk' = length blk"
proof -
  from store_Inr [OF assms(1)] obtain a0 b0 where "block s a0 = Some b0"
    and s': "s' = set_block s a0 (b0[i := v])"
    by auto
  with assms(2) show ?thesis
    by (auto simp: block_set_block_any)
qed

lemma init_i_loop_keeps:
  "init_i_loop s t n src i = Inr s' \<Longrightarrow> block s a = Some blk \<Longrightarrow>
   \<exists>blk'. block s' a = Some blk' \<and> length blk' = length blk"
proof (induction s t n src i arbitrary: blk rule: init_i_loop.induct)
  case (1 s t n src i)
  show ?case
  proof (cases "i < n")
    case False
    with 1(2,3) show ?thesis
      by (simp add: init_i_loop.simps [of s t n src i])
  next
    case True
    with 1(2) have ls: "i < length src"
      by (auto simp: init_i_loop.simps [of s t n src i] split: if_splits)
    with True 1(2) obtain s1 where st: "store s (data t) i (src ! i) = Inr s1"
      and l: "init_i_loop s1 t n src (Suc i) = Inr s'"
      by (auto simp: init_i_loop.simps [of s t n src i] split: sum.splits)
    from store_keeps [OF st 1(3)] obtain b1 where b1: "block s1 a = Some b1"
      and "length b1 = length blk"
      by auto
    with 1(1) [OF True ls st l b1] show ?thesis
      by simp
  qed
qed

lemma init_f_loop_keeps:
  "init_f_loop s t n src i = Inr s' \<Longrightarrow> block s a = Some blk \<Longrightarrow>
   \<exists>blk'. block s' a = Some blk' \<and> length blk' = length blk"
proof (induction s t n src i arbitrary: blk rule: init_f_loop.induct)
  case (1 s t n src i)
  show ?case
  proof (cases "i < n")
    case False
    with 1(2,3) show ?thesis
      by (simp add: init_f_loop.simps [of s t n src i])
  next
    case True
    with 1(2) have ls: "i < length src"
      by (auto simp: init_f_loop.simps [of s t n src i] split: if_splits)
    with True 1(2) obtain v where sc: "scale_sample (src ! i) = Inr v"
      by (auto simp: init_f_loop.simps [of s t n src i] split: sum.splits)
    with True ls 1(2) obtain s1 where st: "store s (data t) i v = Inr s1"
      and l: "init_f_loop s1 t n src (Suc i) = Inr s'"
      by (auto simp: init_f_loop.simps [of s t n src i] split: sum.splits)
    from store_keeps [OF st 1(3)] obtain b1 where b1: "block s1 a = Some b1"
      and "length b1 = length blk"
      by auto
    with 1(1) [OF True ls sc st l b1] show ?thesis
      by simp
  qed
qed

lemma read_loop_keeps:
  "read_loop s t n inp i = Inr s' \<Longrightarrow> block s a = Some blk \<Longrightarrow>
   \<exists>blk'. block s' a = Some blk' \<and> length blk' = length blk"
proof (induction s t n inp i arbitrary: blk rule: read_loop.induct)
  case (1 s t n inp i)
  show ?case
  proof (cases "i < n")
    case False
    with 1(3,4) show ?thesis
      by (simp add: read_loop.simps [of s t n inp i])
  next
    case True
    with 1(3) obtain vo r where sc: "scan_unsigned 32 inp = Inr (vo, r)"
      by (auto simp: read_loop.simps [of s t n inp i] split: sum.splits)
    show ?thesis
    proof (cases vo)
      case None
      with True sc 1(3) have l: "read_loop s t n r (Suc i) = Inr s'"
        by (simp add: read_loop.simps [of s t n inp i])
      from 1(1) [OF True sc [unfolded None] refl refl l 1(4)] show ?thesis .
    next
      case (Some v)
      with True sc 1(3) obtain s1 where st: "store s (data t) i (of_nat v) = Inr s1"
        and l: "read_loop s1 t n (case match_comma r of None \<Rightarrow> r | Some r1 \<Rightarrow> r1) (Suc i) = Inr s'"
        by (auto simp: read_loop.simps [of s t n inp i] split: sum.splits)
      from store_keeps [OF st 1(4)] obtain b1 where b1: "block s1 a = Some b1"
        and "length b1 = length blk"
        by auto
      with 1(2) [OF True sc [unfolded Some] refl refl st l b1] show ?thesis
        by simp
    qed
  qed
qed

lemma initTexture_i_populated:
  assumes "initTexture_i s t wd ht src = Inr (s', t')"
  shows "w t' = wd \<and> h t' = ht
         \<and> (\<exists>blk. buffer s' t' = Some blk \<and> length blk = unat wd * unat ht)"
proof -
  from assms obtain n where n: "mul_int wd ht = Inr n"
    by (auto simp: initTexture_i_def split: sum.splits)
  obtain s1 q where c: "calloc s (to_size_t n) sizeof_uint32 = (s1, q)"
    by (cases "calloc s (to_size_t n) sizeof_uint32")
  from assms n c obtain a where q: "q = Ptr a"
    by (auto simp: initTexture_i_def split: pointer.splits)
  from assms n c q have t': "t' = t\<lparr>w := wd, h := ht, data := Ptr a\<rparr>"
    and l: "init_i_loop s1 t' (to_size_t n) src 0 = Inr s'"
    by (auto simp: initTexture_i_def split: sum.splits)
  from calloc_Ptr [OF c [unfolded q]] have "block s1 a = Some (replicate (to_size_t n) 0)"
    by (simp add: block_def)
  from init_i_loop_keeps [OF l this] mul_int_Inr(3) [OF n] show ?thesis
    by (auto simp: t' buffer_def)
qed

lemma initTexture_f_populated:
  assumes "initTexture_f s t wd ht src = Inr (s', t')"
  shows "w t' = wd \<and> h t' = ht
         \<and> (\<exists>blk. buffer s' t' = Some blk \<and> length blk = unat wd * unat ht)"
proof -
  from assms obtain n where n: "mul_int wd ht = Inr n"
    by (auto simp: initTexture_f_def split: sum.splits)
  obtain s1 q where c: "calloc s (to_size_t n) sizeof_uint32 = (s1, q)"
    by (cases "calloc s (to_size_t n) sizeof_uint32")
  from assms n c obtain a where q: "q = Ptr a"
    by (auto simp: initTexture_f_def split: pointer.splits)
  from assms n c q have t': "t' = t\<lparr>w := wd, h := ht, data := Ptr a\<rparr>"
    and l: "init_f_loop s1 t' (to_size_t n) src 0 = Inr s'"
    by (auto simp: initTexture_f_def split: sum.splits)
  from calloc_Ptr [OF c [unfolded q]] have "block s1 a = Some (replicate (to_size_t n) 0)"
    by (simp add: block_def)
  from init_f_loop_keeps [OF l this] mul_int_Inr(3) [OF n] show ?thesis
    by (auto simp: t' buffer_def)
qed

lemma size_bytes:
  fixes k :: nat
  assumes "k \<le> 2147483647"
  shows "(k * sizeof_uint32) mod 2 ^ 64 div 4 = k"
proof -
  have "k * 4 < (2::nat) ^ 64"
    using assms by simp
  then show ?thesis
    by (simp add: sizeof_uint32_def)
qed

lemma malloc_block:
  assumes "malloc s m = (s1, Ptr a)"
  shows "block s1 a = Some (map (garbage s) [0..<m div 4])"
  using assms
  by (auto simp: malloc_def new_block_def block_def sizeof_uint32_def split: if_splits)

lemma readTexture_populated:
  assumes "readTexture s t p = Inr (s', t')"
  shows "\<exists>blk. buffer s' t' = Some blk \<and> length blk = unat (w t') * unat (h t')"
proof -
  from assms obtain content where f: "files s p = Some content"
    by (auto simp: readTexture_def split: option.splits)
  from assms f obtain t1 rest where hd: "scan_header t content = Inr (t1, rest)"
    by (auto simp: readTexture_def split: sum.splits)
  from assms f hd obtain n where n: "mul_int (w t1) (h t1) = Inr n"
    by (auto simp: readTexture_def split: sum.splits)
  let ?k = "unat (w t1) * unat (h t1)"
  have sz: "to_size_t n = ?k" and fit: "?k \<le> 2147483647"
    using mul_int_Inr [OF n] by (simp_all add: fits_int)
  obtain s1 q where m: "malloc s ((?k * sizeof_uint32) mod 2 ^ 64) = (s1, q)"
    by (cases "malloc s ((?k * sizeof_uint32) mod 2 ^ 64)")
  from assms f hd n sz m obtain a where q: "q = Ptr a"
    by (auto simp: readTexture_def split: pointer.splits)
  from assms f hd n sz m q have t': "t' = t1\<lparr>data := Ptr a\<rparr>"
    and l: "read_loop s1 t' ?k rest 0 = Inr s'"
    by (auto simp: readTexture_def split: sum.splits)
  have "(?k * sizeof_uint32) mod 2 ^ 64 div 4 = ?k"
    using fit by (rule size_bytes)
  with malloc_block [OF m [unfolded q]] have "block s1 a = Some (map (garbage s) [0..<?k])"
    by simp
  from read_loop_keeps [OF l this] show ?thesis
    by (auto simp: t' buffer_def)
qed

lemma readTexture_largest_overflow:
  assumes "files s p = Some (csv_fields [65535, 65535] @ r)"
  shows "readTexture s t p = Inl SignedOverflow"
proof -
  have "scan_header t (csv_fields (65535 # 65535 # []) @ r)
        = Inr (t\<lparr>w := of_nat 65535, h := of_nat 65535\<rparr>, csv_fields [] @ r)"
    by (rule scan_header_fields) simp_all
  with assms show ?thesis
    by (simp add: readTexture_def mul_int_def INT_MAX_def)
qed

text \<open>
  C6. The buffer does not get the length \<open>w * h\<close> for every width and height.
  The element count \<open>w * h\<close> is a product of two \<open>int\<close>, and at the largest
  extents \<open>65535 * 65535 = 4294836225\<close> exceeds \<open>INT_MAX\<close>. There both
  initialisers, in every world and for every sample array, and \<open>readTexture\<close>
  on every file that starts with that header, are undefined and return no
  texture, however many bytes the allocator has.
\<close>

theorem largest_extents_overflow:
  "unat (65535 :: uint16) * unat (65535 :: uint16) = 4294836225
   \<and> mul_int 65535 65535 = Inl SignedOverflow
   \<and> initTexture_i s t 65535 65535 ns = Inl SignedOverflow
   \<and> initTexture_f s t 65535 65535 fs = Inl SignedOverflow
   \<and> readTexture (s\<lparr>files := (files s)(p \<mapsto> ''65535,65535,'' @ r)\<rparr>) t p
       = Inl SignedOverflow"
proof -
  have m: "mul_int 65535 65535 = Inl SignedOverflow"
    by (simp add: mul_int_def INT_MAX_def)
  have c: "csv_fields [65535, 65535] = ''65535,65535,''"
    by (simp add: csv_fields_def decimal.simps digit_char_def)
  have "files (s\<lparr>files := (files s)(p \<mapsto> ''65535,65535,'' @ r)\<rparr>) p
        = Some (csv_fields [65535, 65535] @ r)"
    by (simp only: c) simp
  then have rd: "readTexture (s\<lparr>files := (files s)(p \<mapsto> ''65535,65535,'' @ r)\<rparr>) t p
        = Inl SignedOverflow"
    by (rule readTexture_largest_overflow)
  show ?thesis
    using m rd by (simp add: initTexture_i_def initTexture_f_def)
qed

text \<open>
  Where the product of the extents fits an \<open>int\<close> the buffer has that length:
  whenever one of the populating operations \<open>initTexture_f\<close>, \<open>initTexture_i\<close>
  and \<open>readTexture\<close> returns, the texture it returns owns a buffer whose length is
  the product of its width and its height as natural numbers.
\<close>

theorem buffer_length_invariant:
  "(\<forall>s' t'. initTexture_f s t wd ht fs = Inr (s', t') \<longrightarrow>
      w t' = wd \<and> h t' = ht
      \<and> (\<exists>blk. buffer s' t' = Some blk \<and> length blk = unat wd * unat ht))
 \<and> (\<forall>s' t'. initTexture_i s t wd ht ns = Inr (s', t') \<longrightarrow>
      w t' = wd \<and> h t' = ht
      \<and> (\<exists>blk. buffer s' t' = Some blk \<and> length blk = unat wd * unat ht))
 \<and> (\<forall>s' t'. readTexture s t p = Inr (s', t') \<longrightarrow>
      (\<exists>blk. buffer s' t' = Some blk \<and> length blk = unat (w t') * unat (h t')))"
proof (intro conjI allI impI)
  fix s' t'
  assume r: "initTexture_f s t wd ht fs = Inr (s', t')"
  from initTexture_f_populated [OF r]
  show "w t' = wd" "h t' = ht"
    "\<exists>blk. buffer s' t' = Some blk \<and> length blk = unat wd * unat ht"
    by auto
next
  fix s' t'
  assume r: "initTexture_i s t wd ht ns = Inr (s', t')"
  from initTexture_i_populated [OF r]
  show "w t' = wd" "h t' = ht"
    "\<exists>blk. buffer s' t' = Some blk \<and> length blk = unat wd * unat ht"
    by auto
next
  fix s' t'
  assume "readTexture s t p = Inr (s', t')"
  then show "\<exists>blk. buffer s' t' = Some blk \<and> length blk = unat (w t') * unat (h t')"
    by (rule readTexture_populated)
qed

text \<open>
  Rounding to binary32 on integers just above \<open>2^24\<close>, where only every second
  integer is a float: a tie goes to the even mantissa.
\<close>

lemma round_f32_ties_to_even:
  "float_of_uint32 16777215 = Finite False 16777215 0"
  "float_of_uint32 16777216 = Finite False 8388608 1"
  "float_of_uint32 16777217 = Finite False 8388608 1"
  "float_of_uint32 16777218 = Finite False 8388609 1"
  "float_of_uint32 16777219 = Finite False 8388610 1"
  "float_of_uint32 4294967167 = Finite False 16777215 8"
  "float_of_uint32 4294967168 = Finite False 16777216 8"
  by (simp_all add: float_of_uint32_def round_f32_def bitlen.simps Let_def)

lemma replicate_2: "replicate 2 x = [x, x]"
  by (simp add: numeral_2_eq_2)

lemmas run_initTexture_f =
  initTexture_f_def mul_int_def INT_MAX_def to_size_t_def calloc_def SIZE_MAX_def
  sizeof_uint32_def new_block_def init_f_loop.simps scale_sample_def uint32_of_float_def
  float_of_uint32_def UINT32_MAX_def round_f32_def bitlen.simps Let_def store_def block_def
  set_block_def replicate_2

theorem buffer_length_invariant_witness:
  "(\<exists>s' t' blk. initTexture_f
        \<lparr>heap = [], avail = 1000, garbage = (\<lambda>_. 0),
           files = (\<lambda>_. Some ''2,1,7,8,9,''), writable = (\<lambda>_. True)\<rparr>
        \<lparr>w = 0, h = 0, data = NULL\<rparr> 2 1 [Finite False 1 (- 1), Finite False 1 (- 2)] = Inr (s', t')
      \<and> w t' = 2 \<and> h t' = 1 \<and> buffer s' t' = Some blk \<and> length blk = 2)
 \<and> (\<exists>s' t' blk. initTexture_i
        \<lparr>heap = [], avail = 1000, garbage = (\<lambda>_. 0),
           files = (\<lambda>_. Some ''2,1,7,8,9,''), writable = (\<lambda>_. True)\<rparr>
        \<lparr>w = 0, h = 0, data = NULL\<rparr> 2 1 [10, 20] = Inr (s', t')
      \<and> w t' = 2 \<and> h t' = 1 \<and> buffer s' t' = Some blk \<and> length blk = 2)
 \<and> (\<exists>s' t' blk. readTexture
        \<lparr>heap = [], avail = 1000, garbage = (\<lambda>_. 0),
           files = (\<lambda>_. Some ''2,1,7,8,9,''), writable = (\<lambda>_. True)\<rparr>
        \<lparr>w = 0, h = 0, data = NULL\<rparr> ''in.csv'' = Inr (s', t')
      \<and> buffer s' t' = Some blk \<and> length blk = unat (w t') * unat (h t'))"
proof -
  let ?s = "\<lparr>heap = [], avail = 1000, garbage = (\<lambda>_. 0),
              files = (\<lambda>_. Some ''2,1,7,8,9,''), writable = (\<lambda>_. True)\<rparr>"
  let ?t = "\<lparr>w = 0, h = 0, data = NULL\<rparr>"
  let ?fs = "[Finite False 1 (- 1), Finite False 1 (- 2)]"
  have f: "\<exists>s' t'. initTexture_f ?s ?t 2 1 ?fs = Inr (s', t')"
    by (simp add: run_initTexture_f)
  have i: "\<exists>s' t'. initTexture_i ?s ?t 2 1 [10, 20] = Inr (s', t')"
    using initTexture_i_returns [of 2 1 ?s "[10, 20]" ?t] by simp
  have c: "files ?s ''in.csv'' = Some (csv_fields (2 # 1 # [7, 8, 9]) @ [])"
    by (simp add: csv_fields_def decimal.simps digit_char_def)
  have r: "\<exists>s' t'. readTexture ?s ?t ''in.csv'' = Inr (s', t')"
    using readTexture_returns [OF c, of ?t] by simp
  from buffer_length_invariant [of ?s ?t 2 1 ?fs "[10, 20]" "''in.csv''"] f i r
  show ?thesis
    by (auto simp del: ex_simps)
qed

lemma initTexture_f_zero:
  assumes "unat wd * unat ht = 0"
  shows "initTexture_f s t wd ht fs =
     Inr (s\<lparr>heap := heap s @ [Some []], avail := avail s - 4 * 0\<rparr>,
          t\<lparr>w := wd, h := ht, data := Ptr (length (heap s))\<rparr>)"
proof -
  have fit: "uint wd * uint ht \<le> INT_MAX"
    using assms by (simp only: fits_int)
  have c: "calloc s 0 sizeof_uint32 =
     (s\<lparr>heap := heap s @ [Some (replicate 0 0)], avail := avail s - 4 * 0\<rparr>, Ptr (length (heap s)))"
    by (rule calloc_ok) simp_all
  show ?thesis
    using mul_int_size [OF fit] assms c
    by (simp add: initTexture_f_def init_f_loop.simps)
qed

lemma zero_extent_write_read:
  assumes "unat wd * unat ht = 0" "writable s p"
  shows "\<exists>s2. writeTexture (s\<lparr>heap := heap s @ [Some []], avail := avail s - 4 * 0\<rparr>)
                 (t\<lparr>w := wd, h := ht, data := Ptr (length (heap s))\<rparr>) p = Inr s2
           \<and> files s2 p = Some (decimal (unat wd) @ '','' @ decimal (unat ht) @ '','')
           \<and> (\<exists>s3 t3. readTexture s2 t0 p = Inr (s3, t3) \<and> buffer s3 t3 = Some [])"
proof -
  let ?s1 = "s\<lparr>heap := heap s @ [Some []], avail := avail s - 4 * 0\<rparr>"
  let ?t1 = "t\<lparr>w := wd, h := ht, data := Ptr (length (heap s))\<rparr>"
  let ?s2 = "?s1\<lparr>files := (files ?s1)(p \<mapsto> csv_record wd ht [])\<rparr>"
  have b: "buffer ?s1 ?t1 = Some []"
    by (rule buffer_new)
  then have pop: "populated ?s1 ?t1"
    using assms(1) by (simp add: populated_def)
  have wr: "writeTexture ?s1 ?t1 p = Inr ?s2"
    using writeTexture_returns [OF pop, of p] assms b by simp
  have hd: "csv_record wd ht [] = decimal (unat wd) @ '','' @ decimal (unat ht) @ '',''"
    by (simp add: csv_record_def csv_fields_def)
  have f: "files ?s2 p = Some (csv_fields (unat wd # unat ht # []) @ [])"
    by (simp add: csv_record_def)
  have rd: "readTexture ?s2 t0 p =
     Inr (?s2\<lparr>heap := heap ?s2 @ [Some (map of_nat (take (unat wd * unat ht) []))],
            avail := avail ?s2 - 4 * (unat wd * unat ht)\<rparr>,
          t0\<lparr>w := of_nat (unat wd), h := of_nat (unat ht), data := Ptr (length (heap ?s2))\<rparr>)"
    by (rule readTexture_returns [OF f unat16_bound unat16_bound]) (simp_all add: assms(1))
  let ?s3 = "?s2\<lparr>heap := heap ?s2 @ [Some (map of_nat (take (unat wd * unat ht) []))],
            avail := avail ?s2 - 4 * (unat wd * unat ht)\<rparr>"
  let ?t3 = "t0\<lparr>w := of_nat (unat wd), h := of_nat (unat ht), data := Ptr (length (heap ?s2))\<rparr>"
  have "buffer ?s3 ?t3 = Some (map of_nat (take (unat wd * unat ht) []))"
    by (rule buffer_new)
  then have "buffer ?s3 ?t3 = Some []"
    by simp
  with rd have "\<exists>s3 t3. readTexture ?s2 t0 p = Inr (s3, t3) \<and> buffer s3 t3 = Some []"
    by blast
  with wr hd show ?thesis
    by simp
qed

text \<open>
  C8. For every width and height one of which is 0: both initialisers return a
  texture with an empty buffer; writing that texture to a path that can be opened
  returns, and the file holds the two header fields and nothing else; reading the
  file back returns a texture with an empty buffer. Every one of them returns,
  so none reads or writes outside a buffer (the error \<open>BadAccess\<close> of the model).
\<close>

theorem zero_extent_header_only:
  assumes "wd = 0 \<or> ht = 0"
  shows "(\<exists>s1 t1. initTexture_f s t wd ht fs = Inr (s1, t1) \<and> buffer s1 t1 = Some []
            \<and> (writable s p \<longrightarrow>
                 (\<exists>s2. writeTexture s1 t1 p = Inr s2
                    \<and> files s2 p = Some (decimal (unat wd) @ '','' @ decimal (unat ht) @ '','')
                    \<and> (\<exists>s3 t3. readTexture s2 t0 p = Inr (s3, t3) \<and> buffer s3 t3 = Some []))))
       \<and> (\<exists>s1 t1. initTexture_i s t wd ht ns = Inr (s1, t1) \<and> buffer s1 t1 = Some []
            \<and> (writable s p \<longrightarrow>
                 (\<exists>s2. writeTexture s1 t1 p = Inr s2
                    \<and> files s2 p = Some (decimal (unat wd) @ '','' @ decimal (unat ht) @ '','')
                    \<and> (\<exists>s3 t3. readTexture s2 t0 p = Inr (s3, t3) \<and> buffer s3 t3 = Some []))))"
proof -
  from assms have z: "unat wd * unat ht = 0"
    by auto
  let ?s1 = "s\<lparr>heap := heap s @ [Some []], avail := avail s - 4 * 0\<rparr>"
  let ?t1 = "t\<lparr>w := wd, h := ht, data := Ptr (length (heap s))\<rparr>"
  have f: "initTexture_f s t wd ht fs = Inr (?s1, ?t1)"
    using z by (rule initTexture_f_zero)
  have i: "initTexture_i s t wd ht ns = Inr (?s1, ?t1)"
    using initTexture_i_returns [of wd ht s ns t] z by simp
  have b: "buffer ?s1 ?t1 = Some []"
    by (rule buffer_new)
  have w: "writable s p \<longrightarrow>
                 (\<exists>s2. writeTexture ?s1 ?t1 p = Inr s2
                    \<and> files s2 p = Some (decimal (unat wd) @ '','' @ decimal (unat ht) @ '','')
                    \<and> (\<exists>s3 t3. readTexture s2 t0 p = Inr (s3, t3) \<and> buffer s3 t3 = Some []))"
    using zero_extent_write_read [OF z, of s p t t0] by blast
  show ?thesis
    unfolding f i using b w by blast
qed

theorem zero_extent_header_only_witness:
  "(\<exists>s1 t1. initTexture_f
        \<lparr>heap = [], avail = 0, garbage = (\<lambda>_. 0), files = (\<lambda>_. None), writable = (\<lambda>_. True)\<rparr>
        \<lparr>w = 7, h = 7, data = NULL\<rparr> 0 5 [] = Inr (s1, t1) \<and> buffer s1 t1 = Some []
      \<and> (\<exists>s2. writeTexture s1 t1 ''empty.csv'' = Inr s2 \<and> files s2 ''empty.csv'' = Some ''0,5,''))
 \<and> (\<exists>s1 t1. initTexture_i
        \<lparr>heap = [], avail = 0, garbage = (\<lambda>_. 0), files = (\<lambda>_. None), writable = (\<lambda>_. True)\<rparr>
        \<lparr>w = 7, h = 7, data = NULL\<rparr> 0 5 [] = Inr (s1, t1) \<and> buffer s1 t1 = Some []
      \<and> (\<exists>s2. writeTexture s1 t1 ''empty.csv'' = Inr s2 \<and> files s2 ''empty.csv'' = Some ''0,5,''))"
proof -
  have d: "decimal 0 = ''0''" "decimal 5 = ''5''"
    by (simp_all add: decimal.simps digit_char_def)
  from zero_extent_header_only [of 0 5
      "\<lparr>heap = [], avail = 0, garbage = (\<lambda>_. 0), files = (\<lambda>_. None), writable = (\<lambda>_. True)\<rparr>"
      "\<lparr>w = 7, h = 7, data = NULL\<rparr>" "[]" "''empty.csv''" "\<lparr>w = 7, h = 7, data = NULL\<rparr>" "[]"] d
  show ?thesis
    by (auto simp del: ex_simps)
qed

subsection \<open>What initTexture\_f computes\<close>

text \<open>
  \<open>initTexture_f\<close> stores, for every sample, what the expression
  \<open>(uint32_t)(UINT32_MAX * data[i])\<close> gives, when it is defined for all of them.
\<close>

lemma init_f_loop_scales:
  assumes "data t = Ptr a" "block s a = Some blk" "length blk = n" "n \<le> length src" "i \<le> n"
    "length vs = n" "\<forall>j < n. scale_sample (src ! j) = Inr (vs ! j)"
  shows "init_f_loop s t n src i = Inr (set_block s a (take i blk @ drop i vs))"
  using assms
proof (induction "n - i" arbitrary: i s blk)
  case 0
  then have "i = n" by simp
  with 0 show ?case
    by (simp add: init_f_loop.simps set_block_same)
next
  case (Suc k)
  then have lt: "i < n" by simp
  let ?blk = "blk[i := vs ! i]"
  let ?s = "set_block s a ?blk"
  have sc: "scale_sample (src ! i) = Inr (vs ! i)"
    using Suc.prems lt by simp
  have st: "store s (data t) i (vs ! i) = Inr ?s"
    using Suc.prems lt by (simp add: store_live)
  have live: "block ?s a = Some ?blk"
    using Suc.prems by (simp add: block_set_block block_live)
  have ih: "init_f_loop ?s t n src (Suc i)
            = Inr (set_block ?s a (take (Suc i) ?blk @ drop (Suc i) vs))"
    using Suc.hyps(1) [of "Suc i" ?s ?blk] Suc.hyps(2) Suc.prems lt live by simp
  have tk: "take (Suc i) ?blk = take i blk @ [vs ! i]"
    using Suc.prems lt by (simp add: take_Suc_conv_app_nth)
  have dr: "drop i vs = vs ! i # drop (Suc i) vs"
    using Suc.prems lt by (simp add: Cons_nth_drop_Suc [symmetric])
  show ?case
    using lt Suc.prems sc st ih tk dr
    by (simp add: init_f_loop.simps [of s t n src i] set_block_twice)
qed

lemma initTexture_f_returns:
  assumes "unat wd * unat ht \<le> 2147483647" "4 * (unat wd * unat ht) \<le> avail s"
    "unat wd * unat ht \<le> length src" "length vs = unat wd * unat ht"
    "\<forall>j < unat wd * unat ht. scale_sample (src ! j) = Inr (vs ! j)"
  shows "initTexture_f s t wd ht src =
     Inr (s\<lparr>heap := heap s @ [Some vs], avail := avail s - 4 * (unat wd * unat ht)\<rparr>,
          t\<lparr>w := wd, h := ht, data := Ptr (length (heap s))\<rparr>)"
proof -
  let ?n = "unat wd * unat ht"
  let ?s1 = "s\<lparr>heap := heap s @ [Some (replicate ?n 0)], avail := avail s - 4 * ?n\<rparr>"
  let ?t1 = "t\<lparr>w := wd, h := ht, data := Ptr (length (heap s))\<rparr>"
  have fit: "uint wd * uint ht \<le> INT_MAX"
    using assms(1) by (simp only: fits_int)
  have loop: "init_f_loop ?s1 ?t1 ?n src 0
              = Inr (set_block ?s1 (length (heap s)) (take 0 (replicate ?n 0) @ drop 0 vs))"
    by (rule init_f_loop_scales [where blk = "replicate ?n 0"])
       (use assms in \<open>simp_all add: block_new\<close>)
  show ?thesis
    using mul_int_size [OF fit] calloc_ok [OF assms(2) assms(1)] loop
    by (simp add: initTexture_f_def set_block_new)
qed

text \<open>
  For a binary32 sample \<open>x = m * 2^e\<close> with \<open>0 \<le> x < 1\<close> that expression is
  \<open>x * 2^32\<close> with its fraction cut off: the product with the rounded constant
  \<open>2^32\<close> is exact.
\<close>

lemma bitlen_0: "bitlen 0 = 0"
  by (simp add: bitlen.simps)

lemma bitlen_pos: "0 < m \<Longrightarrow> bitlen m = Suc (bitlen (m div 2))"
  by (subst bitlen.simps) simp

lemma bitlen_le: "m < 2 ^ k \<Longrightarrow> bitlen m \<le> k"
proof (induction k arbitrary: m)
  case 0
  then show ?case by (simp add: bitlen_0)
next
  case (Suc k)
  show ?case
  proof (cases "m = 0")
    case True
    then show ?thesis by (simp add: bitlen_0)
  next
    case False
    from Suc.prems have "m div 2 < 2 ^ k" by simp
    then have "bitlen (m div 2) \<le> k" by (rule Suc.IH)
    with False show ?thesis by (simp add: bitlen_pos)
  qed
qed

lemma bitlen_less: "m < 2 ^ bitlen m"
proof (induction m rule: bitlen.induct)
  case (1 n)
  show ?case
  proof (cases "n = 0")
    case True
    then show ?thesis by (simp add: bitlen_0)
  next
    case False
    with 1 have "n div 2 < 2 ^ bitlen (n div 2)" by simp
    then have "n < 2 * 2 ^ bitlen (n div 2)" by linarith
    with False show ?thesis by (simp add: bitlen_pos)
  qed
qed

lemma bitlen_shift: "0 < m \<Longrightarrow> bitlen (2 ^ j * m) = j + bitlen m"
proof (induction j)
  case 0
  then show ?case by simp
next
  case (Suc j)
  then have "0 < 2 ^ Suc j * m" by simp
  then have "bitlen (2 ^ Suc j * m) = Suc (bitlen (2 ^ Suc j * m div 2))"
    by (rule bitlen_pos)
  also have "2 ^ Suc j * m div 2 = 2 ^ j * m" by simp
  finally show ?case using Suc by simp
qed

lemma fmul_two_32:
  assumes "0 < m" "m < 2 ^ 24" "- 149 \<le> e" "e < 0"
  shows "fmul (Finite False 16777216 8) (Finite False m e)
         = Finite False (m * 2 ^ (24 - bitlen m)) (8 + e + int (bitlen m))"
proof -
  let ?L = "bitlen m"
  have L24: "?L \<le> 24" using assms(2) by (rule bitlen_le)
  have Lpos: "0 < ?L" using assms(1) by (simp add: bitlen_pos)
  have mL: "m < 2 ^ ?L" by (rule bitlen_less)
  have bl: "bitlen (16777216 * m) = 24 + ?L"
    using bitlen_shift [OF assms(1), of 24] by simp
  have sh: "max (int (bitlen (16777216 * m)) - 24) (- 149 - (8 + e)) = int ?L"
    using assms(3) by (simp add: bl)
  have split: "(16777216::nat) = 2 ^ (24 - ?L) * 2 ^ ?L"
    using L24 by (simp add: power_add [symmetric])
  have prod: "16777216 * m = (m * 2 ^ (24 - ?L)) * 2 ^ ?L"
    by (subst split) (simp add: mult_ac)
  have dv: "16777216 * m div 2 ^ ?L = m * 2 ^ (24 - ?L)"
    by (subst prod) simp
  have md: "16777216 * m mod 2 ^ ?L = 0"
    by (subst prod) simp
  have q24: "m * 2 ^ (24 - ?L) < 2 ^ 24"
  proof -
    have "m * 2 ^ (24 - ?L) < 2 ^ ?L * 2 ^ (24 - ?L)"
      using mL by simp
    also have "\<dots> = 2 ^ 24"
      using L24 by (simp add: power_add [symmetric])
    finally show ?thesis .
  qed
  have e31: "8 + e + int ?L \<le> 31"
    using assms(4) L24 by simp
  have nov: "\<not> (0 \<le> 8 + e + int ?L \<and> (2::nat) ^ 128 \<le> m * 2 ^ (24 - ?L) * 2 ^ nat (8 + e + int ?L))"
  proof
    assume a: "0 \<le> 8 + e + int ?L \<and> (2::nat) ^ 128 \<le> m * 2 ^ (24 - ?L) * 2 ^ nat (8 + e + int ?L)"
    have "nat (8 + e + int ?L) \<le> 31" using e31 by simp
    then have "(2::nat) ^ nat (8 + e + int ?L) \<le> 2 ^ 31"
      by (intro power_increasing) simp_all
    then have "m * 2 ^ (24 - ?L) * 2 ^ nat (8 + e + int ?L) \<le> 2 ^ 24 * 2 ^ 31"
      using q24 by (intro mult_mono) simp_all
    with a show False by simp
  qed
  show ?thesis
    using sh dv md nov Lpos
    by (simp add: round_f32_def Let_def)
qed

lemma div_pow2_le:
  fixes m :: nat
  assumes "k \<le> n"
  shows "m * 2 ^ n div 2 ^ k = m * 2 ^ (n - k)"
proof -
  have "(2::nat) ^ n = 2 ^ (n - k) * 2 ^ k"
    using assms by (simp add: power_add [symmetric])
  then have "m * 2 ^ n = m * 2 ^ (n - k) * 2 ^ k"
    by (simp only: mult.assoc)
  then show ?thesis
    by (simp only: div_mult_self_is_m zero_less_power zero_less_numeral)
qed

lemma div_pow2_ge:
  fixes m :: nat
  assumes "n \<le> k"
  shows "m * 2 ^ n div 2 ^ k = m div 2 ^ (k - n)"
proof -
  have "(2::nat) ^ k = 2 ^ n * 2 ^ (k - n)"
    using assms by (simp add: power_add [symmetric])
  then have "m * 2 ^ n div 2 ^ k = (2 ^ n * m) div (2 ^ n * 2 ^ (k - n))"
    by (simp only: mult.commute [of m])
  also have "\<dots> = m div 2 ^ (k - n)"
    by (rule div_mult_mult1) simp
  finally show ?thesis .
qed

lemma scale_sample_below_one:
  assumes "m < 2 ^ 24" "- 149 \<le> e" "e < 0" "m < 2 ^ nat (- e)"
  shows "scale_sample (Finite False m e) = Inr (of_nat (m * 2 ^ 32 div 2 ^ nat (- e)))"
proof (cases "m = 0")
  case True
  have "max (- 24) (- 149 - (8 + e)) \<le> 0"
    using assms(2) by simp
  then show ?thesis
    using True
    by (simp add: scale_sample_def float_of_uint32_def UINT32_MAX_def round_f32_def
        bitlen.simps Let_def uint32_of_float_def)
next
  case False
  then have mpos: "0 < m" by simp
  let ?L = "bitlen m"
  let ?k = "nat (- e)"
  let ?q = "m * 2 ^ (24 - ?L)"
  let ?T = "m * 2 ^ 32 div 2 ^ ?k"
  have L24: "?L \<le> 24" using assms(1) by (rule bitlen_le)
  have c: "float_of_uint32 UINT32_MAX = Finite False 16777216 8"
    by (simp add: float_of_uint32_def UINT32_MAX_def round_f32_def bitlen.simps Let_def)
  have f: "fmul (Finite False 16777216 8) (Finite False m e)
           = Finite False ?q (8 + e + int ?L)"
    using mpos assms(1,2,3) by (rule fmul_two_32)
  have T32: "?T < 2 ^ 32"
  proof -
    have "m * 2 ^ 32 < 2 ^ ?k * 2 ^ 32"
      using assms(4) by simp
    then show ?thesis
      by (simp add: less_mult_imp_div_less mult.commute)
  qed
  have t: "(if 0 \<le> 8 + e + int ?L then ?q * 2 ^ nat (8 + e + int ?L)
            else ?q div 2 ^ nat (- (8 + e + int ?L))) = ?T"
  proof (cases "0 \<le> 8 + e + int ?L")
    case True
    then have k: "?k \<le> 8 + ?L" using assms(3) by simp
    then have k32: "?k \<le> 32" using L24 by simp
    have n: "nat (8 + e + int ?L) = 8 + ?L - ?k"
      using True assms(3) by simp
    have "?q * 2 ^ (8 + ?L - ?k) = m * 2 ^ (24 - ?L + (8 + ?L - ?k))"
      by (simp only: power_add mult.assoc)
    also have "24 - ?L + (8 + ?L - ?k) = 32 - ?k"
      using L24 k by simp
    finally have lhs: "?q * 2 ^ (8 + ?L - ?k) = m * 2 ^ (32 - ?k)" .
    have "?T = m * 2 ^ (32 - ?k)"
      using k32 by (rule div_pow2_le)
    with lhs True n show ?thesis by (simp only: if_True)
  next
    case False
    then have k: "8 + ?L < ?k" using assms(3) by simp
    have n: "nat (- (8 + e + int ?L)) = ?k - 8 - ?L"
      using False assms(3) by simp
    show ?thesis
    proof (cases "?k \<le> 32")
      case True
      have "?k - 8 - ?L \<le> 24 - ?L"
        using True by simp
      then have "?q div 2 ^ (?k - 8 - ?L) = m * 2 ^ (24 - ?L - (?k - 8 - ?L))"
        by (rule div_pow2_le)
      also have "24 - ?L - (?k - 8 - ?L) = 32 - ?k"
        using True k L24 by simp
      finally have l: "?q div 2 ^ (?k - 8 - ?L) = m * 2 ^ (32 - ?k)" .
      have "?T = m * 2 ^ (32 - ?k)"
        using True by (rule div_pow2_le)
      with l False n show ?thesis by (simp only: if_False)
    next
      case k32: False
      have "24 - ?L \<le> ?k - 8 - ?L"
        using k32 by simp
      then have "?q div 2 ^ (?k - 8 - ?L) = m div 2 ^ (?k - 8 - ?L - (24 - ?L))"
        by (rule div_pow2_ge)
      also have "?k - 8 - ?L - (24 - ?L) = ?k - 32"
        using k32 L24 by simp
      finally have l: "?q div 2 ^ (?k - 8 - ?L) = m div 2 ^ (?k - 32)" .
      have "32 \<le> ?k" using k32 by simp
      then have "?T = m div 2 ^ (?k - 32)"
        by (rule div_pow2_ge)
      with l False n show ?thesis by (simp only: if_False)
    qed
  qed
  have "uint32_of_float (Finite False ?q (8 + e + int ?L)) = Inr (of_nat ?T)"
    unfolding uint32_of_float_def float32.case Let_def t
    using T32 by simp
  then show ?thesis
    by (simp only: scale_sample_def c f)
qed

text \<open>
  C2. The elements \<open>initTexture_f\<close> computes are not the truncated products of
  the samples with 4294967295: the constant \<open>UINT32_MAX\<close> is converted to
  \<open>float\<close>, which rounds it to \<open>2^32\<close>, and the product is a \<open>float\<close>. The
  sample 0.5 gives 2147483648 and 0.25 gives 1073741824, where the exact products
  truncate to 2147483647 and 1073741823; for the sample 1.0 the product \<open>2^32\<close> is
  not a value of \<open>uint32_t\<close> and the cast is undefined, so the call
  \<open>initTexture_f(2, 2, [0.0, 1.0, 0.5, 0.25])\<close> has no defined result.
\<close>

theorem initTexture_f_single_precision:
  "float_of_uint32 UINT32_MAX = Finite False 16777216 8
   \<and> scale_sample (Finite False 0 0) = Inr 0
   \<and> scale_sample (Finite False 1 (- 1)) = Inr 2147483648
   \<and> spec_scaled (Finite False 1 (- 1)) = Some 2147483647
   \<and> scale_sample (Finite False 1 (- 2)) = Inr 1073741824
   \<and> spec_scaled (Finite False 1 (- 2)) = Some 1073741823
   \<and> scale_sample (Finite False 1 0) = Inl FloatToInt
   \<and> spec_scaled (Finite False 1 0) = Some 4294967295
   \<and> initTexture_f
        \<lparr>heap = [], avail = 1000, garbage = (\<lambda>_. 0), files = (\<lambda>_. None), writable = (\<lambda>_. True)\<rparr>
        \<lparr>w = 0, h = 0, data = NULL\<rparr> 2 2
        [Finite False 0 0, Finite False 1 0, Finite False 1 (- 1), Finite False 1 (- 2)]
      = Inl FloatToInt
   \<and> initTexture_f
        \<lparr>heap = [], avail = 1000, garbage = (\<lambda>_. 0), files = (\<lambda>_. None), writable = (\<lambda>_. True)\<rparr>
        \<lparr>w = 0, h = 0, data = NULL\<rparr> 1 2 [Finite False 1 (- 1), Finite False 1 (- 2)]
      = Inr (\<lparr>heap = [Some [2147483648, 1073741824]], avail = 992, garbage = (\<lambda>_. 0),
               files = (\<lambda>_. None), writable = (\<lambda>_. True)\<rparr>,
             \<lparr>w = 1, h = 2, data = Ptr 0\<rparr>)"
  by (simp add: run_initTexture_f spec_scaled_def)

subsection \<open>Releasing a texture\<close>

lemma free_sound:
  "sound s t \<Longrightarrow> \<exists>s1. free s (data t) = Inr s1"
  by (auto simp: sound_def free_def split: pointer.splits option.splits)

lemma freeTexture_result:
  "freeTexture s t = Inr (s1, t1) \<Longrightarrow> t1 = t\<lparr>data := NULL\<rparr>"
  by (auto simp: freeTexture_def split: sum.splits)

lemma freeTexture_again:
  "freeTexture s1 (t\<lparr>data := NULL\<rparr>) = Inr (s1, t\<lparr>data := NULL\<rparr>)"
  by (simp add: freeTexture_def free_def)

text \<open>
  C7. For every texture whose data pointer is sound, one call of \<open>freeTexture\<close>
  returns and leaves the data pointer null, and a second call on the result
  returns as well (it frees nothing twice) and changes neither the world nor
  the texture.
\<close>

theorem freeTexture_idempotent:
  assumes "sound s t"
  shows "\<exists>s1 t1. freeTexture s t = Inr (s1, t1) \<and> data t1 = NULL
           \<and> freeTexture s1 t1 = Inr (s1, t1)"
proof -
  from free_sound [OF assms] obtain s1 where f: "free s (data t) = Inr s1" ..
  then have r: "freeTexture s t = Inr (s1, t\<lparr>data := NULL\<rparr>)"
    by (simp add: freeTexture_def)
  show ?thesis
    using r freeTexture_again [of s1 t] by auto
qed

theorem freeTexture_idempotent_witness:
  "sound \<lparr>heap = [Some [7, 8]], avail = 100, garbage = (\<lambda>_. 0),
           files = (\<lambda>_. None), writable = (\<lambda>_. True)\<rparr>
         \<lparr>w = 2, h = 1, data = Ptr 0\<rparr>
   \<and> (\<exists>s1 t1. freeTexture \<lparr>heap = [Some [7, 8]], avail = 100, garbage = (\<lambda>_. 0),
           files = (\<lambda>_. None), writable = (\<lambda>_. True)\<rparr>
         \<lparr>w = 2, h = 1, data = Ptr 0\<rparr> = Inr (s1, t1) \<and> data t1 = NULL
           \<and> freeTexture s1 t1 = Inr (s1, t1))"
proof -
  have h: "sound \<lparr>heap = [Some [7, 8]], avail = 100, garbage = (\<lambda>_. 0),
           files = (\<lambda>_. None), writable = (\<lambda>_. True)\<rparr>
         \<lparr>w = 2, h = 1, data = Ptr 0\<rparr>"
    by (simp add: sound_def block_def)
  from freeTexture_idempotent [OF h] h show ?thesis by blast
qed

text \<open>
  C10. For every texture whose data pointer is sound, \<open>freeTexture\<close> returns
  the texture with the same width and height and only the data pointer changed,
  to null.
\<close>

theorem freeTexture_frame:
  assumes "sound s t"
  shows "\<exists>s1 t1. freeTexture s t = Inr (s1, t1) \<and> w t1 = w t \<and> h t1 = h t
           \<and> t1 = t\<lparr>data := NULL\<rparr>"
proof -
  from free_sound [OF assms] obtain s1 where "free s (data t) = Inr s1" ..
  then have "freeTexture s t = Inr (s1, t\<lparr>data := NULL\<rparr>)"
    by (simp add: freeTexture_def)
  then show ?thesis by simp
qed

theorem freeTexture_frame_witness:
  "sound \<lparr>heap = [Some [7, 8]], avail = 100, garbage = (\<lambda>_. 0),
           files = (\<lambda>_. None), writable = (\<lambda>_. True)\<rparr>
         \<lparr>w = 2, h = 1, data = Ptr 0\<rparr>
   \<and> (\<exists>s1 t1. freeTexture \<lparr>heap = [Some [7, 8]], avail = 100, garbage = (\<lambda>_. 0),
           files = (\<lambda>_. None), writable = (\<lambda>_. True)\<rparr>
         \<lparr>w = 2, h = 1, data = Ptr 0\<rparr> = Inr (s1, t1) \<and> w t1 = 2 \<and> h t1 = 1
           \<and> data t1 = NULL)"
proof -
  have h: "sound \<lparr>heap = [Some [7, 8]], avail = 100, garbage = (\<lambda>_. 0),
           files = (\<lambda>_. None), writable = (\<lambda>_. True)\<rparr>
         \<lparr>w = 2, h = 1, data = Ptr 0\<rparr>"
    by (simp add: sound_def block_def)
  from freeTexture_frame [OF h] h show ?thesis by auto
qed

end
